theory Spec2Isabelle
  imports Main "HOL-Library.Sublist" "HOL-Library.Multiset"
begin

section \<open>scripts/build_peeringdb_dump.py\<close>

text \<open>
  The script fetches one JSON snapshot per resource, upserts its objects into the table
  \<open>objects\<close> of a SQLite file, and writes four kinds of text files from it. The
  model follows \<open>main\<close> statement by statement. Text is \<open>string\<close>; a
  \<open>char\<close> stands for one code point below 256, which is what Python's \<open>str\<close>
  counts on that range. A Python float is kept by its 64 bits; what the libraries do
  with one (conversions, renderings) is a parameter of the model.
\<close>

subsection \<open>Constants\<close>

definition RESOURCES :: "string list" where
  "RESOURCES = [''org'', ''campus'', ''fac'', ''net'', ''ix'', ''carrier'', ''carrierfac'',
     ''ixfac'', ''ixlan'', ''ixpfx'', ''netfac'', ''netixlan'']"

definition DB_PATH :: string where "DB_PATH = ''peeringdb_dump.db''"
definition SQL_PATH :: string where "SQL_PATH = ''peeringdb_dump.sql''"
definition CDN_BASE :: string where "CDN_BASE = ''https://public.peeringdb.com''"
definition D1_DIR :: string where "D1_DIR = ''d1_sql''"
definition D1_SQL_PATH :: string where "D1_SQL_PATH = ''peeringdb_dump_d1.sql''"

definition skip_prefixes :: "string list" where
  "skip_prefixes = [''BEGIN TRANSACTION'', ''COMMIT'', ''PRAGMA'']"

subsection \<open>Python values and the exceptions the script can meet\<close>

text \<open>What \<open>json.load\<close> returns. A dict is the list of its items in order; its keys
  are distinct. A float is the number its 64 bits (IEEE 754) make; \<open>NaN\<close>, which
  \<open>json.load\<close> accepts, is one.\<close>

datatype double = Float64 nat

definition is_nan :: "double \<Rightarrow> bool" where
  "is_nan x = (case x of Float64 n \<Rightarrow> (n div 2 ^ 52) mod 2 ^ 11 = 2047 \<and> n mod 2 ^ 52 \<noteq> 0)"

datatype json =
    JNull
  | JBool bool
  | JInt int
  | JFloat double
  | JStr string
  | JArr "json list"
  | JObj "(string \<times> json) list"

datatype error =
    URLError
  | JSONDecodeError
  | KeyError
  | TypeError
  | AttributeError
  | OverflowError
  | InterfaceError
  | IntegrityError
  | OperationalError
  | OSError

text \<open>\<open>str(n)\<close> for an integer: decimal digits, with a minus sign when negative.\<close>

definition digit_char :: "nat \<Rightarrow> char" where
  "digit_char d = char_of (48 + d)"

fun digits :: "nat \<Rightarrow> string" where
  "digits n = (if n < 10 then [digit_char n] else digits (n div 10) @ [digit_char (n mod 10)])"

declare digits.simps [simp del]

definition str_int :: "int \<Rightarrow> string" where
  "str_int i = (if i < 0 then CHR ''-'' # digits (nat (- i)) else digits (nat i))"

text \<open>\<open>value[key]\<close>: only a dict can be subscripted with a string.\<close>

fun subscript :: "json \<Rightarrow> string \<Rightarrow> error + json" where
  "subscript (JObj kvs) k = (case map_of kvs k of None \<Rightarrow> Inl KeyError | Some v \<Rightarrow> Inr v)"
| "subscript _ k = Inl TypeError"

text \<open>
  \<open>for obj in value\<close>: a list yields its elements, a dict its keys, a string its
  characters; nothing else is iterable.
\<close>

fun iterate :: "json \<Rightarrow> error + json list" where
  "iterate (JArr xs) = Inr xs"
| "iterate (JObj kvs) = Inr (map (\<lambda>kv. JStr (fst kv)) kvs)"
| "iterate (JStr s) = Inr (map (\<lambda>c. JStr [c]) s)"
| "iterate _ = Inl TypeError"

text \<open>\<open>obj.get(key, default)\<close>: only a dict has the method.\<close>

fun dict_get :: "json \<Rightarrow> string \<Rightarrow> json \<Rightarrow> error + json" where
  "dict_get (JObj kvs) k d = Inr (case map_of kvs k of None \<Rightarrow> d | Some v \<Rightarrow> v)"
| "dict_get _ k d = Inl AttributeError"

subsection \<open>The store: table \<open>objects\<close>\<close>

datatype sqlval = Null | Integer int | Real double | Text string

text \<open>What a text value is in a column of INTEGER affinity: an integer or a real when it
  reads as one, itself otherwise.\<close>

datatype numeric = IntegerValue int | RealValue double | NotNumeric

record row =
  resource :: string
  obj_id :: sqlval
  updated :: string
  payload :: string

text \<open>
  What the script takes from its libraries, as parameters; every result holds for all of
  them, under the hypotheses it states:
  \<^item> \<open>dumps\<close>: the compact serialiser \<open>json.dumps(obj, separators=(",", ":"))\<close>;
  \<^item> \<open>integer_affinity\<close>: what SQLite makes of a text value stored in a column of
    INTEGER affinity;
  \<^item> \<open>real_affinity\<close>: the integer a real value is stored as in such a column, when it
    equals one;
  \<^item> \<open>real_text\<close>: the text a real value is stored as in a column of TEXT affinity;
  \<^item> \<open>float_str\<close>: Python's \<open>str\<close> of a float;
  \<^item> \<open>scan_order\<close>: the order in which the engine returns the rows that a SELECT
    without ORDER BY matches, from those rows in table order;
  \<^item> \<open>iterdump\<close>: \<open>Connection.iterdump\<close>.
\<close>

record lib =
  dumps :: "json \<Rightarrow> string"
  integer_affinity :: "string \<Rightarrow> numeric"
  real_affinity :: "double \<Rightarrow> int option"
  real_text :: "double \<Rightarrow> string"
  float_str :: "double \<Rightarrow> string"
  scan_order :: "row list \<Rightarrow> row list"
  iterdump :: "row list \<Rightarrow> string list"

text \<open>
  Binding a Python value to a \<open>?\<close> of a statement: \<open>None\<close> is NULL, \<open>bool\<close>
  and \<open>int\<close> are INTEGER (64-bit signed), \<open>float\<close> is REAL (a NaN is bound as
  NULL), \<open>str\<close> is TEXT, and lists and dicts are refused.
\<close>

fun bind_param :: "json \<Rightarrow> error + sqlval" where
  "bind_param JNull = Inr Null"
| "bind_param (JBool b) = Inr (Integer (if b then 1 else 0))"
| "bind_param (JInt i) =
     (if - (2 ^ 63) \<le> i \<and> i < 2 ^ 63 then Inr (Integer i) else Inl OverflowError)"
| "bind_param (JFloat x) = Inr (if is_nan x then Null else Real x)"
| "bind_param (JStr s) = Inr (Text s)"
| "bind_param (JArr xs) = Inl InterfaceError"
| "bind_param (JObj kvs) = Inl InterfaceError"

text \<open>
  \<open>obj_id INTEGER NOT NULL\<close> and \<open>updated TEXT NOT NULL\<close>: NULL violates the
  constraint (with \<open>OR REPLACE\<close> and no default value the statement aborts); other
  values are converted by the column's affinity.
\<close>

fun integer_column :: "lib \<Rightarrow> sqlval \<Rightarrow> error + sqlval" where
  "integer_column L Null = Inl IntegrityError"
| "integer_column L (Integer i) = Inr (Integer i)"
| "integer_column L (Real x) =
     Inr (case real_affinity L x of Some i \<Rightarrow> Integer i | None \<Rightarrow> Real x)"
| "integer_column L (Text s) =
     Inr (case integer_affinity L s of
            IntegerValue i \<Rightarrow> Integer i | RealValue x \<Rightarrow> Real x | NotNumeric \<Rightarrow> Text s)"

fun text_column :: "lib \<Rightarrow> sqlval \<Rightarrow> error + string" where
  "text_column L Null = Inl IntegrityError"
| "text_column L (Integer i) = Inr (str_int i)"
| "text_column L (Real x) = Inr (real_text L x)"
| "text_column L (Text s) = Inr s"

text \<open>\<open>PRIMARY KEY (resource, obj_id)\<close> with \<open>INSERT OR REPLACE\<close>: the rows that
  hold the new row's key are removed, then the new row is added.\<close>

definition same_key :: "row \<Rightarrow> row \<Rightarrow> bool" where
  "same_key r x = (resource x = resource r \<and> obj_id x = obj_id r)"

definition upsert :: "row \<Rightarrow> row list \<Rightarrow> row list" where
  "upsert r tbl = filter (\<lambda>x. \<not> same_key r x) tbl @ [r]"

text \<open>One execution of
  \<open>INSERT OR REPLACE INTO objects (resource,obj_id,updated,payload) VALUES (?,?,?,?)\<close>:
  the parameters are bound in order, then the statement runs: the constraints are
  checked, the values converted, and the row replaces the rows of its key.\<close>

definition stored_row :: "lib \<Rightarrow> string \<times> json \<times> json \<times> string \<Rightarrow> error + row" where
  "stored_row L t =
     (case t of (res, i, u, p) \<Rightarrow>
        (case bind_param i of Inl e \<Rightarrow> Inl e | Inr vi \<Rightarrow>
        (case bind_param u of Inl e \<Rightarrow> Inl e | Inr vu \<Rightarrow>
        (case integer_column L vi of Inl e \<Rightarrow> Inl e | Inr k \<Rightarrow>
        (case text_column L vu of Inl e \<Rightarrow> Inl e | Inr ut \<Rightarrow>
           Inr \<lparr>resource = res, obj_id = k, updated = ut, payload = p\<rparr>)))))"

definition insert_or_replace ::
  "lib \<Rightarrow> string \<times> json \<times> json \<times> string \<Rightarrow> row list \<Rightarrow> error + row list" where
  "insert_or_replace L t tbl =
     (case stored_row L t of Inl e \<Rightarrow> Inl e | Inr r \<Rightarrow> Inr (upsert r tbl))"

text \<open>\<open>cur.executemany\<close>: the rows in order; the first failure stops it, with the
  earlier rows already in the table.\<close>

fun executemany ::
  "lib \<Rightarrow> (string \<times> json \<times> json \<times> string) list \<Rightarrow> row list \<Rightarrow> error option \<times> row list" where
  "executemany L [] tbl = (None, tbl)"
| "executemany L (t # ts) tbl =
     (case insert_or_replace L t tbl of
        Inl e \<Rightarrow> (Some e, tbl)
      | Inr tbl' \<Rightarrow> executemany L ts tbl')"

text \<open>The rows the table holds for a resource, and
  \<open>SELECT obj_id, updated, payload FROM objects WHERE resource = ?\<close>: the statement
  has no ORDER BY, so the rows come in the order the engine chooses (an index on
  \<open>(resource, updated DESC)\<close> exists).\<close>

definition rows_of :: "string \<Rightarrow> row list \<Rightarrow> row list" where
  "rows_of res tbl = filter (\<lambda>x. resource x = res) tbl"

definition select_resource :: "lib \<Rightarrow> string \<Rightarrow> row list \<Rightarrow> row list" where
  "select_resource L res tbl = scan_order L (rows_of res tbl)"

subsection \<open>The import loop\<close>

text \<open>The list comprehension of lines 62 to 70: one tuple per element of \<open>data\<close>.\<close>

definition row_tuple :: "lib \<Rightarrow> string \<Rightarrow> json \<Rightarrow> error + string \<times> json \<times> json \<times> string" where
  "row_tuple L res obj =
     (case dict_get obj ''id'' JNull of Inl e \<Rightarrow> Inl e | Inr i \<Rightarrow>
     (case dict_get obj ''updated'' (JStr []) of Inl e \<Rightarrow> Inl e | Inr u \<Rightarrow>
        Inr (res, i, u, dumps L obj)))"

fun build_rows ::
  "lib \<Rightarrow> string \<Rightarrow> json list \<Rightarrow> error + (string \<times> json \<times> json \<times> string) list" where
  "build_rows L res [] = Inr []"
| "build_rows L res (obj # objs) =
     (case row_tuple L res obj of Inl e \<Rightarrow> Inl e | Inr t \<Rightarrow>
     (case build_rows L res objs of Inl e \<Rightarrow> Inl e | Inr ts \<Rightarrow> Inr (t # ts)))"

text \<open>
  The world the script acts on: the committed table of the database file (\<open>None\<close>
  when there is no table), the table as the open connection sees it, the text files,
  the URLs requested so far and the two output streams. The environment decides what a
  request returns (\<open>urlopen\<close> followed by \<open>json.load\<close>) and which paths can be
  written.
\<close>

datatype response = Unreachable | NotJson | Json json

record env =
  http :: "string \<Rightarrow> response"
  writable :: "string \<Rightarrow> bool"

record world =
  db :: "row list option"
  conn :: "row list"
  files :: "string \<Rightarrow> string option"
  requests :: "string list"
  stderr :: "string list"
  stdout :: "string list"

type_synonym step = "world \<Rightarrow> error option \<times> world"

text \<open>Statements in sequence: an exception ends the run where it is raised.\<close>

definition seq :: "step \<Rightarrow> step \<Rightarrow> step" where
  "seq a b w = (case a w of (Some e, w') \<Rightarrow> (Some e, w') | (None, w') \<Rightarrow> b w')"

fun for_each :: "(string \<Rightarrow> step) \<Rightarrow> string list \<Rightarrow> step" where
  "for_each body [] w = (None, w)"
| "for_each body (r # rs) w = seq (body r) (for_each body rs) w"

definition snapshot_url :: "string \<Rightarrow> string" where
  "snapshot_url res = CDN_BASE @ ''/'' @ res @ ''-0.json''"

text \<open>The body of the loop of lines 57 to 75, which the specification calls
  \<open>fetch_and_store\<close>.\<close>

definition fetch_and_store :: "lib \<Rightarrow> env \<Rightarrow> string \<Rightarrow> step" where
  "fetch_and_store L E res w =
     (let w1 = w\<lparr>requests := requests w @ [snapshot_url res]\<rparr> in
      case http E (snapshot_url res) of
        Unreachable \<Rightarrow> (Some URLError, w1)
      | NotJson \<Rightarrow> (Some JSONDecodeError, w1)
      | Json j \<Rightarrow>
         (case subscript j ''data'' of Inl e \<Rightarrow> (Some e, w1) | Inr data \<Rightarrow>
         (case iterate data of Inl e \<Rightarrow> (Some e, w1) | Inr objs \<Rightarrow>
         (case build_rows L res objs of Inl e \<Rightarrow> (Some e, w1) | Inr rows \<Rightarrow>
         (case executemany L rows (conn w1) of
            (Some e, tbl) \<Rightarrow> (Some e, w1\<lparr>conn := tbl\<rparr>)
          | (None, tbl) \<Rightarrow>
              (None, w1\<lparr>conn := tbl,
                 stderr := stderr w1 @ [res @ '': '' @ str_int (int (length rows)) @ '' rows'']\<rparr>))))))"

subsection \<open>The export\<close>

definition write_file :: "env \<Rightarrow> string \<Rightarrow> string \<Rightarrow> step" where
  "write_file E path content w =
     (if writable E path then (None, w\<lparr>files := (files w)(path \<mapsto> content)\<rparr>)
      else (Some OSError, w))"

definition say :: "string \<Rightarrow> step" where
  "say msg w = (None, w\<lparr>stdout := stdout w @ [msg]\<rparr>)"

definition makedirs :: "env \<Rightarrow> step" where
  "makedirs E w = (if writable E D1_DIR then (None, w) else (Some OSError, w))"

text \<open>\<open>sqlite3.connect\<close> and the script of lines 42 to 55: the table is dropped and
  created again, empty.\<close>

definition init_db :: "env \<Rightarrow> step" where
  "init_db E w =
     (if writable E DB_PATH then (None, w\<lparr>db := Some [], conn := []\<rparr>)
      else (Some OperationalError, w))"

definition commit :: step where
  "commit w = (None, w\<lparr>db := Some (conn w)\<rparr>)"

definition write_full_dump :: "lib \<Rightarrow> env \<Rightarrow> step" where
  "write_full_dump L E w =
     write_file E SQL_PATH (concat (map (\<lambda>line. line @ ''\<newline>'') (iterdump L (conn w)))) w"

definition schema_text :: string where
  "schema_text =
     ''\<newline>CREATE TABLE IF NOT EXISTS objects (\<newline>'' @
     ''  resource TEXT NOT NULL,\<newline>'' @
     ''  obj_id   INTEGER NOT NULL,\<newline>'' @
     ''  updated  TEXT NOT NULL,\<newline>'' @
     ''  payload  TEXT NOT NULL,\<newline>'' @
     ''  PRIMARY KEY (resource, obj_id)\<newline>'' @
     '');\<newline>'' @
     ''CREATE INDEX IF NOT EXISTS objects_resource_updated_idx\<newline>'' @
     ''  ON objects (resource, updated DESC);\<newline>''"

definition path_join :: "string \<Rightarrow> string \<Rightarrow> string" where
  "path_join d f = d @ ''/'' @ f"

text \<open>\<open>payload.replace("'", "''")\<close>.\<close>

fun replace_quote :: "string \<Rightarrow> string" where
  "replace_quote [] = []"
| "replace_quote (c # cs) =
     (if c = CHR 0x27 then CHR 0x27 # CHR 0x27 # replace_quote cs else c # replace_quote cs)"

text \<open>\<open>f"{obj_id}"\<close> for the value read back from the column.\<close>

fun format_id :: "lib \<Rightarrow> sqlval \<Rightarrow> string" where
  "format_id L (Integer i) = str_int i"
| "format_id L (Real x) = float_str L x"
| "format_id L (Text s) = s"
| "format_id L Null = ''None''"

definition delete_statement :: "string \<Rightarrow> string" where
  "delete_statement res = ''DELETE FROM objects WHERE resource = '' @ [CHR 0x27] @ res @ [CHR 0x27] @ '';\<newline>''"

definition insert_statement :: "lib \<Rightarrow> string \<Rightarrow> row \<Rightarrow> string" where
  "insert_statement L res r =
     (let payload_escaped = replace_quote (payload r) in
      ''INSERT OR REPLACE INTO objects (resource,obj_id,updated,payload) VALUES ('' @
      [CHR 0x27] @ res @ [CHR 0x27] @ '','' @ format_id L (obj_id r) @ '','' @
      [CHR 0x27] @ updated r @ [CHR 0x27] @ '','' @
      [CHR 0x27] @ payload_escaped @ [CHR 0x27] @ '');\<newline>'')"

text \<open>The writes to one chunk file, in order (lines 108 to 117).\<close>

fun write_rows :: "lib \<Rightarrow> string \<Rightarrow> row list \<Rightarrow> string list \<Rightarrow> string list" where
  "write_rows L res [] f = f"
| "write_rows L res (r # rs) f = write_rows L res rs (f @ [insert_statement L res r])"

definition chunk_writes :: "lib \<Rightarrow> string \<Rightarrow> row list \<Rightarrow> string list" where
  "chunk_writes L res tbl =
     write_rows L res (select_resource L res tbl) [delete_statement res]"

definition write_chunk :: "lib \<Rightarrow> env \<Rightarrow> string \<Rightarrow> step" where
  "write_chunk L E res w =
     (let outfile = path_join D1_DIR (res @ ''.sql'') in
      case db w of
        None \<Rightarrow>
          (if writable E outfile
           then (Some OperationalError, w\<lparr>files := (files w)(outfile \<mapsto> delete_statement res)\<rparr>)
           else (Some OSError, w))
      | Some tbl \<Rightarrow>
          seq (write_file E outfile (concat (chunk_writes L res tbl)))
              (say (''wrote chunk '' @ outfile)) w)"

subsection \<open>The filtered dump\<close>

text \<open>\<open>str.isspace\<close> on the code points below 256, and \<open>str.strip()\<close>.\<close>

definition isspace :: "char \<Rightarrow> bool" where
  "isspace c = (let n = (of_char c :: nat) in
     (9 \<le> n \<and> n \<le> 13) \<or> (28 \<le> n \<and> n \<le> 32) \<or> n = 133 \<or> n = 160)"

definition strip :: "string \<Rightarrow> string" where
  "strip s = rev (dropWhile isspace (rev (dropWhile isspace s)))"

fun startswith :: "string \<Rightarrow> string list \<Rightarrow> bool" where
  "startswith s [] = False"
| "startswith s (p # ps) = (if prefix p s then True else startswith s ps)"

text \<open>The loop of lines 131 to 135 over the lines read; \<open>dst\<close> collects the lines
  written.\<close>

fun filter_lines :: "string list \<Rightarrow> string list \<Rightarrow> string list" where
  "filter_lines [] dst = dst"
| "filter_lines (line # src) dst =
     (let stripped = strip line in
      if stripped = [] \<or> startswith stripped skip_prefixes then filter_lines src dst
      else filter_lines src (dst @ [line]))"

definition filter_dump :: "string list \<Rightarrow> string list" where
  "filter_dump src = filter_lines src []"

text \<open>Iterating a file opened in text mode: a line ends at \<open>\n\<close>, \<open>\r\<close> or
  \<open>\r\n\<close>, each read as \<open>\n\<close>.\<close>

fun read_lines :: "bool \<Rightarrow> string \<Rightarrow> string \<Rightarrow> string list" where
  "read_lines pending_cr cur [] = (if cur = [] then [] else [cur])"
| "read_lines pending_cr cur (c # cs) =
     (if pending_cr \<and> c = CHR 0x0A then read_lines False cur cs
      else if c = CHR 0x0A \<or> c = CHR 0x0D then (cur @ ''\<newline>'') # read_lines (c = CHR 0x0D) [] cs
      else read_lines False (cur @ [c]) cs)"

definition write_filtered_dump :: "env \<Rightarrow> step" where
  "write_filtered_dump E w =
     (case files w SQL_PATH of
        None \<Rightarrow> (Some OSError, w)
      | Some content \<Rightarrow>
          write_file E D1_SQL_PATH (concat (filter_dump (read_lines False [] content))) w)"

subsection \<open>\<open>main\<close>\<close>

definition import_phase :: "lib \<Rightarrow> env \<Rightarrow> string list \<Rightarrow> step" where
  "import_phase L E rs = seq (init_db E) (seq (for_each (fetch_and_store L E) rs) commit)"

definition export_phase :: "lib \<Rightarrow> env \<Rightarrow> string list \<Rightarrow> step" where
  "export_phase L E rs =
     seq (write_full_dump L E)
    (seq (say (''wrote '' @ DB_PATH @ '' and '' @ SQL_PATH))
    (seq (write_file E (path_join D1_DIR ''00_schema.sql'') schema_text)
    (seq (say (''wrote schema file '' @ path_join D1_DIR ''00_schema.sql''))
    (seq (for_each (write_chunk L E) rs)
    (seq (write_filtered_dump E)
         (say (''wrote '' @ D1_SQL_PATH @ '' (filtered for D1 execute; may still be large)'')))))))"

definition run :: "lib \<Rightarrow> env \<Rightarrow> string list \<Rightarrow> step" where
  "run L E rs = seq (makedirs E) (seq (import_phase L E rs) (export_phase L E rs))"

text \<open>The exit status of the process: \<open>main\<close> returns 0 to \<open>SystemExit\<close>; an
  exception that nothing catches ends the interpreter with status 1.\<close>

definition main :: "lib \<Rightarrow> env \<Rightarrow> world \<Rightarrow> int \<times> world" where
  "main L E w = (case run L E RESOURCES w of (None, w') \<Rightarrow> (0, w') | (Some e, w') \<Rightarrow> (1, w'))"

subsection \<open>Reading a chunk file back\<close>

text \<open>
  Replaying a chunk file is done by a SQL engine, not by the script. The reader below
  follows an engine on statements of the two forms the script writes, where a text value
  is an expression made of string literals, \<open>||\<close>, \<open>replace(X,Y,Z)\<close> and
  \<open>char(N)\<close>, and an id is an integer literal. A string literal runs from a single
  quote to the next single quote that is not doubled, and a doubled quote inside it
  stands for one quote; \<open>replace\<close> substitutes \<open>Z\<close> for every occurrence of a
  non-empty \<open>Y\<close> in \<open>X\<close>, from the left; \<open>char(N)\<close> is the character of code
  \<open>N\<close>. The reader is partial: it knows no white space, no other function and no
  other statement, and answers \<open>None\<close> for text of any other form. \<open>DELETE\<close>
  removes the rows of the resource, \<open>INSERT OR REPLACE\<close> is the upsert of the
  store.
\<close>

fun read_literal :: "string \<Rightarrow> (string \<times> string) option" where
  "read_literal [] = None"
| "read_literal [c] = (if c = CHR 0x27 then Some ([], []) else None)"
| "read_literal (c # d # cs) =
     (if c \<noteq> CHR 0x27 then
        (case read_literal (d # cs) of None \<Rightarrow> None | Some (s, rest) \<Rightarrow> Some (c # s, rest))
      else if d = CHR 0x27 then
        (case read_literal cs of None \<Rightarrow> None | Some (s, rest) \<Rightarrow> Some (CHR 0x27 # s, rest))
      else Some ([], d # cs))"

definition expect :: "string \<Rightarrow> string \<Rightarrow> string option" where
  "expect p s = (if prefix p s then Some (drop (length p) s) else None)"

definition is_digit :: "char \<Rightarrow> bool" where
  "is_digit c = (48 \<le> (of_char c :: nat) \<and> (of_char c :: nat) \<le> 57)"

fun read_digits :: "nat \<Rightarrow> string \<Rightarrow> nat \<times> string" where
  "read_digits acc [] = (acc, [])"
| "read_digits acc (c # cs) =
     (if is_digit c then read_digits (10 * acc + (of_char c - 48)) cs else (acc, c # cs))"

definition read_integer :: "string \<Rightarrow> (int \<times> string) option" where
  "read_integer s =
     (case s of
        [] \<Rightarrow> None
      | c # cs \<Rightarrow>
          if c = CHR ''-'' then
            (case cs of
               [] \<Rightarrow> None
             | d # ds \<Rightarrow>
                 if is_digit d then (case read_digits 0 cs of (n, rest) \<Rightarrow> Some (- int n, rest))
                 else None)
          else if is_digit c then (case read_digits 0 s of (n, rest) \<Rightarrow> Some (int n, rest))
          else None)"

function sql_replace :: "string \<Rightarrow> string \<Rightarrow> string \<Rightarrow> string" where
  "sql_replace x y z =
     (if x = [] \<or> y = [] then x
      else if prefix y x then z @ sql_replace (drop (length y) x) y z
      else hd x # sql_replace (tl x) y z)"
  by pat_completeness auto
termination
  by (relation "measure (\<lambda>(x, y, z). length x)") auto

declare sql_replace.simps [simp del]

definition read_char :: "string \<Rightarrow> (string \<times> string) option" where
  "read_char s =
     (case s of
        [] \<Rightarrow> None
      | c # cs \<Rightarrow>
          if is_digit c then
            (case read_digits 0 s of (n, rest) \<Rightarrow>
               if 0 < n \<and> n < 256 then Some ([char_of n], rest) else None)
          else None)"

text \<open>An expression, read with a bound on the nesting (the callers give the length of
  the text, which no expression of the text exceeds).\<close>

fun read_expr :: "nat \<Rightarrow> string \<Rightarrow> (string \<times> string) option"
  and read_term :: "nat \<Rightarrow> string \<Rightarrow> (string \<times> string) option" where
  "read_expr 0 s = None"
| "read_expr (Suc n) s =
     (case read_term n s of None \<Rightarrow> None | Some (x, s1) \<Rightarrow>
     (case expect ''||'' s1 of None \<Rightarrow> Some (x, s1) | Some s2 \<Rightarrow>
     (case read_expr n s2 of None \<Rightarrow> None | Some (y, s3) \<Rightarrow> Some (x @ y, s3))))"
| "read_term 0 s = None"
| "read_term (Suc n) s =
     (case expect [CHR 0x27] s of Some s1 \<Rightarrow> read_literal s1 | None \<Rightarrow>
     (case expect ''replace('' s of
        Some s1 \<Rightarrow>
          (case read_expr n s1 of None \<Rightarrow> None | Some (x, s2) \<Rightarrow>
          (case expect '','' s2 of None \<Rightarrow> None | Some s3 \<Rightarrow>
          (case read_expr n s3 of None \<Rightarrow> None | Some (y, s4) \<Rightarrow>
          (case expect '','' s4 of None \<Rightarrow> None | Some s5 \<Rightarrow>
          (case read_expr n s5 of None \<Rightarrow> None | Some (z, s6) \<Rightarrow>
          (case expect '')'' s6 of None \<Rightarrow> None | Some s7 \<Rightarrow>
             Some (sql_replace x y z, s7)))))))
      | None \<Rightarrow>
          (case expect ''char('' s of None \<Rightarrow> None | Some s1 \<Rightarrow>
          (case read_char s1 of None \<Rightarrow> None | Some (x, s2) \<Rightarrow>
          (case expect '')'' s2 of None \<Rightarrow> None | Some s3 \<Rightarrow> Some (x, s3))))))"

definition read_text :: "string \<Rightarrow> (string \<times> string) option" where
  "read_text s = read_expr (length s) s"

definition read_delete :: "string \<Rightarrow> (string \<times> string) option" where
  "read_delete s =
     (case expect ''DELETE FROM objects WHERE resource = '' s of None \<Rightarrow> None | Some s1 \<Rightarrow>
     (case read_text s1 of None \<Rightarrow> None | Some (res, s2) \<Rightarrow>
     (case expect '';\<newline>'' s2 of None \<Rightarrow> None | Some s3 \<Rightarrow> Some (res, s3))))"

definition read_insert :: "string \<Rightarrow> (row \<times> string) option" where
  "read_insert s =
     (case expect ''INSERT OR REPLACE INTO objects (resource,obj_id,updated,payload) VALUES (''
             s of None \<Rightarrow> None | Some s1 \<Rightarrow>
     (case read_text s1 of None \<Rightarrow> None | Some (res, s2) \<Rightarrow>
     (case expect '','' s2 of None \<Rightarrow> None | Some s3 \<Rightarrow>
     (case read_integer s3 of None \<Rightarrow> None | Some (i, s4) \<Rightarrow>
     (case expect '','' s4 of None \<Rightarrow> None | Some s5 \<Rightarrow>
     (case read_text s5 of None \<Rightarrow> None | Some (u, s6) \<Rightarrow>
     (case expect '','' s6 of None \<Rightarrow> None | Some s7 \<Rightarrow>
     (case read_text s7 of None \<Rightarrow> None | Some (p, s8) \<Rightarrow>
     (case expect '');\<newline>'' s8 of None \<Rightarrow> None | Some s9 \<Rightarrow>
        Some (\<lparr>resource = res, obj_id = Integer i, updated = u, payload = p\<rparr>, s9))))))))))"

lemma read_literal_shorter:
  assumes "read_literal s = Some (x, rest)"
  shows "length rest < length s"
  using assms
proof (induction s arbitrary: x rest rule: read_literal.induct)
  case 1
  then show ?case by simp
next
  case (2 c)
  then show ?case by (simp split: if_splits)
next
  case (3 c d cs)
  show ?case
  proof (cases "c \<noteq> CHR 0x27")
    case True
    with "3.prems" obtain y where "read_literal (d # cs) = Some (y, rest)"
      by (auto split: option.splits)
    with "3.IH"(1) True have "length rest < length (d # cs)" by blast
    then show ?thesis by simp
  next
    case c: False
    show ?thesis
    proof (cases "d = CHR 0x27")
      case True
      with c "3.prems" obtain y where "read_literal cs = Some (y, rest)"
        by (auto split: option.splits)
      with "3.IH"(2) c True have "length rest < length cs" by blast
      then show ?thesis by simp
    next
      case False
      with c "3.prems" show ?thesis by simp
    qed
  qed
qed

lemma expect_shorter:
  assumes "expect p s = Some rest"
  shows "length rest + length p = length s"
  using assms by (auto simp: expect_def prefix_def split: if_splits)

lemma read_digits_shorter: "length (snd (read_digits acc s)) \<le> length s"
  by (induction s arbitrary: acc) (auto intro: le_SucI)

lemma read_integer_shorter:
  assumes "read_integer s = Some (i, rest)"
  shows "length rest \<le> length s"
proof -
  have a: "\<And>acc t n r. read_digits acc t = (n, r) \<Longrightarrow> length r \<le> length t"
    using read_digits_shorter by (metis snd_conv)
  from assms show ?thesis
    by (auto simp: read_integer_def split: list.splits if_splits prod.splits dest!: a)
qed

lemma read_char_shorter:
  assumes "read_char s = Some (x, rest)"
  shows "length rest \<le> length s"
proof -
  have a: "\<And>acc t n r. read_digits acc t = (n, r) \<Longrightarrow> length r \<le> length t"
    using read_digits_shorter by (metis snd_conv)
  from assms show ?thesis
    by (auto simp: read_char_def split: list.splits if_splits prod.splits dest!: a)
qed

lemma read_expr_shorter:
  "(read_expr n s = Some (x, rest) \<longrightarrow> length rest < length s) \<and>
   (read_term n s = Some (x, rest) \<longrightarrow> length rest < length s)"
proof (induction n arbitrary: s x rest)
  case 0
  show ?case by simp
next
  case (Suc n)
  have e: "\<And>t y r. read_expr n t = Some (y, r) \<Longrightarrow> length r < length t"
    using Suc by blast
  have t: "\<And>t y r. read_term n t = Some (y, r) \<Longrightarrow> length r < length t"
    using Suc by blast
  have 1: "read_expr (Suc n) s = Some (x, rest) \<longrightarrow> length rest < length s"
  proof
    assume a: "read_expr (Suc n) s = Some (x, rest)"
    then obtain y s1 where y: "read_term n s = Some (y, s1)"
      by (auto split: option.splits)
    show "length rest < length s"
    proof (cases "expect ''||'' s1")
      case None
      with a y have "rest = s1" by simp
      with t [OF y] show ?thesis by simp
    next
      case (Some s2)
      with a y obtain z where z: "read_expr n s2 = Some (z, rest)"
        by (auto split: option.splits)
      from expect_shorter [OF Some] have "length s2 \<le> length s1" by simp
      with e [OF z] t [OF y] show ?thesis by simp
    qed
  qed
  have 2: "read_term (Suc n) s = Some (x, rest) \<longrightarrow> length rest < length s"
  proof
    assume a: "read_term (Suc n) s = Some (x, rest)"
    show "length rest < length s"
    proof (cases "expect [CHR 0x27] s")
      case (Some s1)
      with a have "read_literal s1 = Some (x, rest)" by simp
      from read_literal_shorter [OF this] expect_shorter [OF Some] show ?thesis by simp
    next
      case q: None
      show ?thesis
      proof (cases "expect ''replace('' s")
        case (Some s1)
        with a q obtain x1 s2 s3 y1 s4 s5 z1 s6 where
          r: "read_expr n s1 = Some (x1, s2)" "expect '','' s2 = Some s3"
          "read_expr n s3 = Some (y1, s4)" "expect '','' s4 = Some s5"
          "read_expr n s5 = Some (z1, s6)" "expect '')'' s6 = Some rest"
          by (auto split: option.splits)
        from e [OF r(1)] expect_shorter [OF r(2)] e [OF r(3)] expect_shorter [OF r(4)]
          e [OF r(5)] expect_shorter [OF r(6)]
        have "length rest < length s1" by simp
        with expect_shorter [OF Some] show ?thesis by simp
      next
        case r: None
        with a q obtain s1 x1 s2 where
          c: "expect ''char('' s = Some s1" "read_char s1 = Some (x1, s2)"
          "expect '')'' s2 = Some rest"
          by (auto split: option.splits)
        from read_char_shorter [OF c(2)] expect_shorter [OF c(1)] expect_shorter [OF c(3)]
        show ?thesis by simp
      qed
    qed
  qed
  from 1 2 show ?case by blast
qed

lemma read_text_shorter:
  assumes "read_text s = Some (x, rest)"
  shows "length rest < length s"
  using assms read_expr_shorter unfolding read_text_def by blast

lemma read_delete_shorter:
  assumes "read_delete s = Some (res, rest)"
  shows "length rest < length s"
  using assms
  by (auto simp: read_delete_def split: option.splits prod.splits
      dest!: expect_shorter read_text_shorter)

lemma read_insert_shorter:
  assumes "read_insert s = Some (r, rest)"
  shows "length rest < length s"
  using assms
  by (auto simp: read_insert_def split: option.splits prod.splits
      dest!: expect_shorter read_text_shorter read_integer_shorter)

function replay :: "string \<Rightarrow> row list \<Rightarrow> row list option" where
  "replay s tbl =
     (if s = [] then Some tbl
      else case read_delete s of
        Some (res, rest) \<Rightarrow> replay rest (filter (\<lambda>x. resource x \<noteq> res) tbl)
      | None \<Rightarrow>
          (case read_insert s of
             Some (r, rest) \<Rightarrow> replay rest (upsert r tbl)
           | None \<Rightarrow> None))"
  by pat_completeness auto
termination
  by (relation "measure (\<lambda>(s, tbl). length s)")
     (auto dest: read_delete_shorter read_insert_shorter)

declare replay.simps [simp del]

section \<open>Vocabulary of the results\<close>

text \<open>The key of a row, the rows of a batch that no later row of the batch replaces,
  the row an element of \<open>data\<close> is stored as, and the value of \<open>obj.get("id")\<close>
  for an element.\<close>

definition key :: "row \<Rightarrow> string \<times> sqlval" where
  "key r = (resource r, obj_id r)"

fun last_rows :: "row list \<Rightarrow> row list" where
  "last_rows [] = []"
| "last_rows (r # rs) = (if key r \<in> key ` set rs then last_rows rs else r # last_rows rs)"

definition object_row :: "lib \<Rightarrow> string \<Rightarrow> json \<Rightarrow> error + row" where
  "object_row L res obj =
     (case row_tuple L res obj of Inl e \<Rightarrow> Inl e | Inr t \<Rightarrow> stored_row L t)"


definition unique_keys :: "row list \<Rightarrow> bool" where
  "unique_keys tbl = distinct (map key tbl)"

text \<open>The engine answers a SELECT with each matching row once, in some order.\<close>

definition each_row_once :: "lib \<Rightarrow> bool" where
  "each_row_once L = (\<forall>rows. mset (scan_order L rows) = mset rows)"

text \<open>The objects a request returns for a resource, and what a step never takes away:
  files, requests and output lines.\<close>

definition grows :: "world \<Rightarrow> world \<Rightarrow> bool" where
  "grows w w' =
     ((\<forall>p. files w p \<noteq> None \<longrightarrow> files w' p \<noteq> None) \<and>
      prefix (requests w) (requests w') \<and> prefix (stdout w) (stdout w') \<and>
      prefix (stderr w) (stderr w'))"

definition keeps :: "step \<Rightarrow> bool" where
  "keeps s = (\<forall>w x w'. s w = (x, w') \<longrightarrow> grows w w')"

definition fetched :: "env \<Rightarrow> string \<Rightarrow> json list" where
  "fetched E res =
     (case http E (snapshot_url res) of
        Json j \<Rightarrow>
          (case subscript j ''data'' of
             Inr data \<Rightarrow> (case iterate data of Inr objs \<Rightarrow> objs | Inl e \<Rightarrow> [])
           | Inl e \<Rightarrow> [])
      | _ \<Rightarrow> [])"

text \<open>A row the chunk writer renders as a well-formed statement: an integer id and no
  single quote in \<open>updated\<close>.\<close>

definition plain_row :: "string \<Rightarrow> row \<Rightarrow> bool" where
  "plain_row res r =
     (resource r = res \<and> (\<exists>i. obj_id r = Integer i) \<and> CHR 0x27 \<notin> set (updated r))"

text \<open>The path of a chunk file and the message printed for it; the files after the chunk
  files of some resources are written from a table.\<close>

definition chunk_path :: "string \<Rightarrow> string" where
  "chunk_path res = path_join D1_DIR (res @ ''.sql'')"

definition chunk_message :: "string \<Rightarrow> string" where
  "chunk_message res = ''wrote chunk '' @ chunk_path res"

definition with_chunks ::
  "lib \<Rightarrow> row list \<Rightarrow> string list \<Rightarrow> (string \<Rightarrow> string option) \<Rightarrow> string \<Rightarrow> string option" where
  "with_chunks L tbl rs f =
     fold (\<lambda>res g. g(chunk_path res \<mapsto> concat (chunk_writes L res tbl))) rs f"

definition dump_text :: "lib \<Rightarrow> row list \<Rightarrow> string" where
  "dump_text L tbl = concat (map (\<lambda>line. line @ ''\<newline>'') (iterdump L tbl))"

text \<open>Text read with universal newlines (\<open>\r\n\<close> and \<open>\r\<close> become \<open>\n\<close>), and the
  lines of a text: each ends with its \<open>\n\<close>, but for a last line without one.\<close>

fun universal_newlines :: "string \<Rightarrow> string" where
  "universal_newlines [] = []"
| "universal_newlines [c] = (if c = CHR 0x0D then [CHR 0x0A] else [c])"
| "universal_newlines (c # d # cs) =
     (if c = CHR 0x0D then
        (if d = CHR 0x0A then CHR 0x0A # universal_newlines cs
         else CHR 0x0A # universal_newlines (d # cs))
      else c # universal_newlines (d # cs))"

fun lines_of :: "string \<Rightarrow> string list" where
  "lines_of [] = []"
| "lines_of (c # cs) =
     (if c = CHR 0x0A then [c] # lines_of cs
      else (case lines_of cs of [] \<Rightarrow> [[c]] | l # ls \<Rightarrow> (c # l) # ls))"

definition kept_line :: "string \<Rightarrow> bool" where
  "kept_line l =
     (strip l \<noteq> [] \<and> \<not> prefix ''BEGIN TRANSACTION'' (strip l) \<and>
      \<not> prefix ''COMMIT'' (strip l) \<and> \<not> prefix ''PRAGMA'' (strip l))"

text \<open>The schema file, the two lines printed before the chunk files are written and the
  line printed last.\<close>

definition schema_path :: string where
  "schema_path = path_join D1_DIR ''00_schema.sql''"

definition dump_messages :: "string list" where
  "dump_messages =
     [''wrote '' @ DB_PATH @ '' and '' @ SQL_PATH, ''wrote schema file '' @ schema_path]"

definition last_message :: string where
  "last_message = ''wrote '' @ D1_SQL_PATH @ '' (filtered for D1 execute; may still be large)''"

section \<open>Sample inputs\<close>

definition sample_dump :: "string list" where
  "sample_dump =
     [''BEGIN TRANSACTION;\<newline>'', ''PRAGMA foreign_keys=OFF;\<newline>'',
      ''CREATE TABLE objects (\<newline>'', ''\<newline>'',
      ''INSERT INTO objects VALUES(1);\<newline>'', ''  COMMIT;\<newline>'']"

text \<open>A compact serialiser for the samples: it agrees with
  \<open>json.dumps(obj, separators=(",", ":"))\<close> on values without floats whose strings
  are printable ASCII (the samples hold no float: one is named by its bits).\<close>

fun join :: "string \<Rightarrow> string list \<Rightarrow> string" where
  "join sep [] = []"
| "join sep [x] = x"
| "join sep (x # y # ys) = x @ sep @ join sep (y # ys)"

fun json_string :: "string \<Rightarrow> string" where
  "json_string [] = []"
| "json_string (c # cs) =
     (if c = CHR 0x22 \<or> c = CHR 0x5C then CHR 0x5C # c # json_string cs else c # json_string cs)"

primrec dumps_compact :: "json \<Rightarrow> string" where
  "dumps_compact JNull = ''null''"
| "dumps_compact (JBool b) = (if b then ''true'' else ''false'')"
| "dumps_compact (JInt i) = str_int i"
| "dumps_compact (JFloat x) = (case x of Float64 n \<Rightarrow> ''float:'' @ digits n)"
| "dumps_compact (JStr s) = [CHR 0x22] @ json_string s @ [CHR 0x22]"
| "dumps_compact (JArr xs) = ''['' @ join '','' (map dumps_compact xs) @ '']''"
| "dumps_compact (JObj kvs) =
     ''{'' @ join '',''
       (map (\<lambda>kv. [CHR 0x22] @ json_string (fst kv) @ [CHR 0x22] @ '':'' @ snd kv)
          (map (map_prod id dumps_compact) kvs)) @ ''}''"

definition sample_objs :: "json list" where
  "sample_objs =
     [JObj [(''id'', JInt 1), (''updated'', JStr ''2024-01-01T00:00:00Z'')],
      JObj [(''id'', JInt 2)],
      JObj [(''id'', JInt 1), (''name'', JStr ''O'Brien'')]]"

text \<open>
  The library of the samples. Text that is a decimal integer literal becomes that integer
  in a column of INTEGER affinity (the samples hold no other text id and no float, so the
  float parameters only name a float by its bits). A SELECT returns the rows by
  \<open>updated\<close> descending and, within one \<open>updated\<close>, in table order, which is
  the order of the index \<open>objects_resource_updated_idx\<close>. A dump has the shape
  \<open>iterdump\<close> gives: the schema and one INSERT per row between
  \<open>BEGIN TRANSACTION;\<close> and \<open>COMMIT;\<close>.
\<close>

definition sample_affinity :: "string \<Rightarrow> numeric" where
  "sample_affinity s =
     (case read_integer s of Some (i, []) \<Rightarrow> IntegerValue i | _ \<Rightarrow> NotNumeric)"

definition sample_float :: "double \<Rightarrow> string" where
  "sample_float x = (case x of Float64 n \<Rightarrow> ''float:'' @ digits n)"

fun str_le :: "string \<Rightarrow> string \<Rightarrow> bool" where
  "str_le [] ys = True"
| "str_le (x # xs) [] = False"
| "str_le (x # xs) (y # ys) =
     ((of_char x :: nat) < of_char y \<or> (x = y \<and> str_le xs ys))"

fun insert_by_updated :: "row \<Rightarrow> row list \<Rightarrow> row list" where
  "insert_by_updated r [] = [r]"
| "insert_by_updated r (x # xs) =
     (if str_le (updated r) (updated x) then x # insert_by_updated r xs else r # x # xs)"

definition sample_scan :: "row list \<Rightarrow> row list" where
  "sample_scan rows = fold insert_by_updated rows []"

definition sample_iterdump :: "row list \<Rightarrow> string list" where
  "sample_iterdump tbl =
     [''BEGIN TRANSACTION;'',
      ''CREATE TABLE objects (\<newline>'' @
      ''  resource TEXT NOT NULL,\<newline>'' @
      ''  obj_id   INTEGER NOT NULL,\<newline>'' @
      ''  updated  TEXT NOT NULL,\<newline>'' @
      ''  payload  TEXT NOT NULL,\<newline>'' @
      ''  PRIMARY KEY (resource, obj_id)\<newline>'' @
      '');''] @
     map (\<lambda>r. ''INSERT INTO '' @ [CHR 0x22] @ ''objects'' @ [CHR 0x22] @ '' VALUES('' @
            [CHR 0x27] @ replace_quote (resource r) @ [CHR 0x27] @ '','' @
            (case obj_id r of Integer i \<Rightarrow> str_int i | Real x \<Rightarrow> sample_float x
             | Text t \<Rightarrow> [CHR 0x27] @ replace_quote t @ [CHR 0x27] | Null \<Rightarrow> ''NULL'') @ '','' @
            [CHR 0x27] @ replace_quote (updated r) @ [CHR 0x27] @ '','' @
            [CHR 0x27] @ replace_quote (payload r) @ [CHR 0x27] @ '');'') tbl @
     [''CREATE INDEX objects_resource_updated_idx\<newline>'' @
      ''  ON objects (resource, updated DESC);'',
      ''COMMIT;'']"

definition sample_lib :: lib where
  "sample_lib =
     \<lparr>dumps = dumps_compact, integer_affinity = sample_affinity,
      real_affinity = (\<lambda>x. None), real_text = sample_float, float_str = sample_float,
      scan_order = sample_scan, iterdump = sample_iterdump\<rparr>"

definition sample_env :: env where
  "sample_env =
     \<lparr>http = (\<lambda>url. if url = snapshot_url ''net'' then Json (JObj [(''data'', JArr sample_objs)])
               else Json (JObj [(''data'', JArr [])])),
      writable = (\<lambda>path. True)\<rparr>"

definition empty_world :: world where
  "empty_world =
     \<lparr>db = None, conn = [], files = (\<lambda>path. None), requests = [], stderr = [], stdout = []\<rparr>"

definition obrien_row :: row where
  "obrien_row = \<lparr>resource = ''net'', obj_id = Integer 7, updated = ''2024-01-01T00:00:00Z'',
     payload = ''{'' @ [CHR 0x22] @ ''name'' @ [CHR 0x22] @ '':'' @ [CHR 0x22] @ ''O'Brien'' @ [CHR 0x22] @ ''}''\<rparr>"

definition stale_row :: row where
  "stale_row = \<lparr>resource = ''net'', obj_id = Integer 99, updated = ''2020-01-01T00:00:00Z'',
     payload = ''{}''\<rparr>"

definition stale_world :: world where
  "stale_world = empty_world\<lparr>db := Some [stale_row]\<rparr>"

definition sample_rows :: "row list" where
  "sample_rows =
     [\<lparr>resource = ''net'', obj_id = Integer 2, updated = [],
        payload = dumps_compact (JObj [(''id'', JInt 2)])\<rparr>,
      \<lparr>resource = ''net'', obj_id = Integer 1, updated = [],
        payload = dumps_compact (JObj [(''id'', JInt 1), (''name'', JStr ''O'Brien'')])\<rparr>]"

definition noid_objs :: "json list" where
  "noid_objs = [JObj [(''id'', JInt 1)], JObj [(''name'', JStr ''x'')]]"

definition noid_env :: env where
  "noid_env =
     \<lparr>http = (\<lambda>url. if url = snapshot_url ''fac'' then Json (JObj [(''data'', JArr noid_objs)])
               else Json (JObj [(''data'', JArr [])])),
      writable = (\<lambda>path. True)\<rparr>"

definition kept_world :: world where
  "kept_world = empty_world\<lparr>conn := [obrien_row]\<rparr>"

definition down_env :: env where
  "down_env =
     \<lparr>http = (\<lambda>url. if url = snapshot_url ''fac'' then Unreachable
               else Json (JObj [(''data'', JArr [])])),
      writable = (\<lambda>path. True)\<rparr>"

definition broken_env :: env where
  "broken_env =
     \<lparr>http = (\<lambda>url. if url = snapshot_url ''org'' then NotJson
               else if url = snapshot_url ''campus'' then Json (JObj [(''count'', JInt 0)])
               else Json (JObj [(''data'', JArr [])])),
      writable = (\<lambda>path. path \<noteq> path_join D1_DIR ''00_schema.sql'')\<rparr>"

definition quote_objs :: "json list" where
  "quote_objs = [JObj [(''id'', JInt 3), (''updated'', JStr ''2024-01-01T00:00:00Z'x'')]]"

definition quote_env :: env where
  "quote_env =
     \<lparr>http = (\<lambda>url. if url = snapshot_url ''net'' then Json (JObj [(''data'', JArr quote_objs)])
               else Json (JObj [(''data'', JArr [])])),
      writable = (\<lambda>path. True)\<rparr>"

definition quote_row :: row where
  "quote_row = \<lparr>resource = ''net'', obj_id = Integer 3, updated = ''2024-01-01T00:00:00Z'x'',
     payload = dumps_compact (JObj [(''id'', JInt 3), (''updated'', JStr ''2024-01-01T00:00:00Z'x'')])\<rparr>"




definition ix_row :: row where
  "ix_row = \<lparr>resource = ''ix'', obj_id = Integer 5, updated = ''2023-06-01T00:00:00Z'',
     payload = ''{}''\<rparr>"


definition attr_objs :: "json list" where
  "attr_objs = [JObj [(''name'', JStr ''x'')], JStr ''str'']"

definition attr_env :: env where
  "attr_env =
     \<lparr>http = (\<lambda>url. if url = snapshot_url ''fac'' then Json (JObj [(''data'', JArr attr_objs)])
               else Json (JObj [(''data'', JArr [])])),
      writable = (\<lambda>path. True)\<rparr>"

definition stored_world :: world where
  "stored_world = empty_world\<lparr>db := Some [obrien_row], conn := [obrien_row]\<rparr>"

definition chunk_fail_env :: env where
  "chunk_fail_env =
     \<lparr>http = (\<lambda>url. Json (JObj [(''data'', JArr [])])),
      writable = (\<lambda>path. path \<noteq> ''d1_sql/fac.sql'')\<rparr>"

definition cr_dump :: string where
  "cr_dump = ''INSERT 1'' @ [CHR 0x0D] @ ''INSERT 2'' @ [CHR 0x0A]"

definition cr_world :: world where
  "cr_world = empty_world\<lparr>files := (\<lambda>path. if path = SQL_PATH then Some cr_dump else None)\<rparr>"

definition dump_world :: world where
  "dump_world =
     empty_world\<lparr>files := (\<lambda>path. if path = SQL_PATH then Some (concat sample_dump) else None)\<rparr>"



section \<open>The filtered dump\<close>

lemma filter_lines_eq:
  "filter_lines src dst =
     dst @ filter (\<lambda>l. strip l \<noteq> [] \<and> \<not> startswith (strip l) skip_prefixes) src"
  by (induction src arbitrary: dst) (simp_all add: Let_def)

lemma startswith_skip:
  "startswith s skip_prefixes \<longleftrightarrow>
     prefix ''BEGIN TRANSACTION'' s \<or> prefix ''COMMIT'' s \<or> prefix ''PRAGMA'' s"
  by (simp add: skip_prefixes_def)

lemma not_skip_insert_create:
  assumes "prefix ''INSERT'' s \<or> prefix ''CREATE'' s"
  shows "s \<noteq> [] \<and> \<not> startswith s skip_prefixes"
  using assms by (auto simp: startswith_skip prefix_def)

lemma filter_dump_eq: "filter_dump src = filter kept_line src"
proof -
  have "(\<lambda>l. strip l \<noteq> [] \<and> \<not> startswith (strip l) skip_prefixes) = kept_line"
    by (rule ext) (simp add: kept_line_def startswith_skip)
  then show ?thesis by (simp add: filter_dump_def filter_lines_eq)
qed

lemma universal_newlines_Cons:
  "c \<noteq> CHR 0x0D \<Longrightarrow> universal_newlines (c # cs) = c # universal_newlines cs"
  by (cases cs) simp_all

lemma universal_newlines_CR:
  "universal_newlines (CHR 0x0D # cs) =
     CHR 0x0A # universal_newlines (case cs of [] \<Rightarrow> [] | d # ds \<Rightarrow> if d = CHR 0x0A then ds else cs)"
  by (cases cs) simp_all

lemma universal_newlines_free:
  "CHR 0x0D \<notin> set s \<Longrightarrow> universal_newlines s = s"
proof (induction s)
  case Nil
  show ?case by simp
next
  case (Cons c s)
  then have "c \<noteq> CHR 0x0D" "universal_newlines s = s" by auto
  then show ?case by (simp add: universal_newlines_Cons)
qed

lemma universal_newlines_no_CR: "CHR 0x0D \<notin> set (universal_newlines s)"
  by (induction s rule: universal_newlines.induct) simp_all

lemma concat_lines_of: "concat (lines_of s) = s"
  by (induction s) (auto split: list.splits)

lemma read_lines_aux:
  "(\<forall>cur. read_lines False cur s =
      (case lines_of (universal_newlines s) of
         [] \<Rightarrow> (if cur = [] then [] else [cur])
       | l # ls \<Rightarrow> (cur @ l) # ls)) \<and>
   read_lines True [] s =
     lines_of (universal_newlines (case s of [] \<Rightarrow> [] | d # ds \<Rightarrow> if d = CHR 0x0A then ds else s))"
proof (induction s)
  case Nil
  show ?case by simp
next
  case (Cons c cs)
  have A: "read_lines False [] cs = lines_of (universal_newlines cs)"
    using Cons by (simp split: list.splits)
  have F: "read_lines False cur (c # cs) =
      (case lines_of (universal_newlines (c # cs)) of
         [] \<Rightarrow> (if cur = [] then [] else [cur])
       | l # ls \<Rightarrow> (cur @ l) # ls)" for cur
  proof (cases "c = CHR 0x0A")
    case True
    then show ?thesis by (simp add: A universal_newlines_Cons)
  next
    case lf: False
    show ?thesis
    proof (cases "c = CHR 0x0D")
      case True
      then show ?thesis using Cons by (simp add: universal_newlines_CR)
    next
      case False
      have "read_lines False cur (c # cs) = read_lines False (cur @ [c]) cs"
        using lf False by simp
      also have "\<dots> = (case lines_of (universal_newlines cs) of
         [] \<Rightarrow> [cur @ [c]] | l # ls \<Rightarrow> ((cur @ [c]) @ l) # ls)"
        using Cons by simp
      also have "\<dots> = (case lines_of (universal_newlines (c # cs)) of
         [] \<Rightarrow> (if cur = [] then [] else [cur])
       | l # ls \<Rightarrow> (cur @ l) # ls)"
        using lf False by (simp add: universal_newlines_Cons split: list.splits)
      finally show ?thesis .
    qed
  qed
  have T: "read_lines True [] (c # cs) =
     lines_of (universal_newlines (if c = CHR 0x0A then cs else c # cs))"
  proof (cases "c = CHR 0x0A")
    case True
    then show ?thesis by (simp add: A)
  next
    case False
    have "read_lines True [] (c # cs) = read_lines False [] (c # cs)"
      using False by simp
    then show ?thesis using F [of "[]"] False by (simp split: list.splits)
  qed
  from F T show ?case by simp
qed

lemma read_lines_eq: "read_lines False [] s = lines_of (universal_newlines s)"
  using read_lines_aux [of s] by (simp split: list.splits)

lemma lines_of_line:
  "l \<noteq> [] \<Longrightarrow> CHR 0x0A \<notin> set (butlast l) \<Longrightarrow> last l = CHR 0x0A \<or> t = [] \<Longrightarrow>
   lines_of (l @ t) = l # lines_of t"
proof (induction l)
  case Nil
  then show ?case by simp
next
  case (Cons c l)
  show ?case
  proof (cases "l = []")
    case True
    then show ?thesis using Cons.prems by auto
  next
    case False
    then have "c \<noteq> CHR 0x0A" "CHR 0x0A \<notin> set (butlast l)" "last l = CHR 0x0A \<or> t = []"
      using Cons.prems by auto
    then show ?thesis using Cons.IH [OF False] by simp
  qed
qed

lemma lines_of_lines:
  "(\<forall>l \<in> set (lines_of s). l \<noteq> [] \<and> CHR 0x0A \<notin> set (butlast l)) \<and>
   (\<forall>l \<in> set (butlast (lines_of s)). last l = CHR 0x0A)"
proof (induction s)
  case Nil
  show ?case by simp
next
  case (Cons c cs)
  show ?case
  proof (cases "c = CHR 0x0A")
    case True
    then show ?thesis using Cons by auto
  next
    case False
    show ?thesis
    proof (cases "lines_of cs")
      case Nil
      then show ?thesis using False by simp
    next
      case (Cons l ls)
      have l: "l \<noteq> []" "CHR 0x0A \<notin> set (butlast l)"
        using Cons.IH Cons by auto
      have "\<forall>x \<in> set (butlast ((c # l) # ls)). last x = CHR 0x0A"
        using Cons.IH Cons l by (cases ls) auto
      moreover have "\<forall>x \<in> set ((c # l) # ls). x \<noteq> [] \<and> CHR 0x0A \<notin> set (butlast x)"
        using Cons.IH Cons l False by auto
      ultimately show ?thesis using False Cons by simp
    qed
  qed
qed

lemma butlast_filter_subset: "set (butlast (filter P xs)) \<subseteq> set (butlast xs)"
proof (cases xs rule: rev_cases)
  case Nil
  then show ?thesis by simp
next
  case (snoc ys y)
  show ?thesis
  proof (cases "P y")
    case True
    then show ?thesis using snoc by auto
  next
    case False
    have "set (butlast (filter P ys)) \<subseteq> set (filter P ys)"
      by (meson in_set_butlastD subsetI)
    then show ?thesis using snoc False by auto
  qed
qed

lemma lines_of_concat:
  "(\<forall>l \<in> set ls. l \<noteq> [] \<and> CHR 0x0A \<notin> set (butlast l)) \<Longrightarrow>
   (\<forall>l \<in> set (butlast ls). last l = CHR 0x0A) \<Longrightarrow> lines_of (concat ls) = ls"
proof (induction ls)
  case Nil
  show ?case by simp
next
  case (Cons l ls)
  have l: "l \<noteq> []" "CHR 0x0A \<notin> set (butlast l)"
    using Cons.prems by auto
  have t: "last l = CHR 0x0A \<or> concat ls = []"
  proof (cases "ls = []")
    case True
    then show ?thesis by simp
  next
    case False
    then show ?thesis using Cons.prems(2) by simp
  qed
  have "lines_of (concat ls) = ls"
  proof (rule Cons.IH)
    show "\<forall>l \<in> set ls. l \<noteq> [] \<and> CHR 0x0A \<notin> set (butlast l)"
      using Cons.prems(1) by simp
    show "\<forall>l \<in> set (butlast ls). last l = CHR 0x0A"
      using Cons.prems(2) by (cases ls) auto
  qed
  then show ?case using lines_of_line [OF l t] by simp
qed

lemma lines_of_kept:
  "lines_of (concat (filter P (lines_of s))) = filter P (lines_of s)"
proof (rule lines_of_concat)
  show "\<forall>l \<in> set (filter P (lines_of s)). l \<noteq> [] \<and> CHR 0x0A \<notin> set (butlast l)"
    using lines_of_lines [of s] by simp
  show "\<forall>l \<in> set (butlast (filter P (lines_of s))). last l = CHR 0x0A"
    using lines_of_lines [of s] butlast_filter_subset [of P "lines_of s"] by blast
qed

lemma read_lines_kept:
  "read_lines False [] (concat (filter_dump (read_lines False [] c))) =
     filter_dump (read_lines False [] c)"
proof -
  let ?k = "filter kept_line (lines_of (universal_newlines c))"
  have "set (concat ?k) \<subseteq> set (concat (lines_of (universal_newlines c)))"
    by auto
  then have "CHR 0x0D \<notin> set (concat ?k)"
    using universal_newlines_no_CR [of c] by (auto simp: concat_lines_of)
  then have "universal_newlines (concat ?k) = concat ?k"
    by (rule universal_newlines_free)
  then show ?thesis
    by (simp add: read_lines_eq filter_dump_eq lines_of_kept)
qed

lemma write_filtered_dump_eq:
  assumes "files w SQL_PATH = Some c" "writable E D1_SQL_PATH"
  shows "write_filtered_dump E w =
     (None, w\<lparr>files := (files w)(D1_SQL_PATH \<mapsto> concat (filter_dump (read_lines False [] c)))\<rparr>)"
  using assms by (simp add: write_filtered_dump_def write_file_def)

section \<open>The upsert\<close>

lemma same_key_iff: "same_key r x \<longleftrightarrow> key x = key r"
  by (auto simp: same_key_def key_def)

lemma upsert_eq: "upsert r tbl = filter (\<lambda>x. key x \<noteq> key r) tbl @ [r]"
  by (simp add: upsert_def same_key_iff)

lemma fold_upsert:
  "fold upsert rs tbl = filter (\<lambda>x. key x \<notin> key ` set rs) tbl @ last_rows rs"
proof (induction rs arbitrary: tbl)
  case Nil
  show ?case by simp
next
  case (Cons r rs)
  have "filter (\<lambda>x. key x \<notin> key ` set rs) (filter (\<lambda>x. key x \<noteq> key r) tbl)
      = filter (\<lambda>x. key x \<notin> key ` set (r # rs)) tbl"
    by (induction tbl) auto
  with Cons show ?case by (simp add: upsert_eq)
qed

lemma key_set_last_rows: "key ` set (last_rows rs) = key ` set rs"
  by (induction rs) auto




lemma build_rows_Inr:
  "build_rows L res objs = Inr ts \<longleftrightarrow> list_all2 (\<lambda>obj t. row_tuple L res obj = Inr t) objs ts"
proof (induction objs arbitrary: ts)
  case Nil
  show ?case by auto
next
  case (Cons obj objs)
  show ?case
  proof (cases "row_tuple L res obj")
    case (Inl e)
    then show ?thesis by (auto simp: list_all2_Cons1)
  next
    case t: (Inr t)
    show ?thesis
    proof (cases "build_rows L res objs")
      case (Inl e)
      with t Cons.IH show ?thesis by (auto simp: list_all2_Cons1)
    next
      case (Inr ts')
      have iff: "\<And>us. list_all2 (\<lambda>obj t. row_tuple L res obj = Inr t) objs us \<longleftrightarrow> us = ts'"
        using Cons.IH Inr by (metis sum.inject(2))
      show ?thesis
      proof (cases ts)
        case Nil
        with t Inr show ?thesis by simp
      next
        case (Cons u us)
        with t Inr iff [of us] show ?thesis by auto
      qed
    qed
  qed
qed

lemma executemany_None:
  "executemany L ts tbl = (None, tbl') \<longleftrightarrow>
     (\<exists>rs. list_all2 (\<lambda>t r. stored_row L t = Inr r) ts rs \<and> tbl' = fold upsert rs tbl)"
proof (induction ts arbitrary: tbl)
  case Nil
  show ?case by auto
next
  case (Cons t ts)
  show ?case
  proof (cases "stored_row L t")
    case (Inl e)
    then show ?thesis
      by (auto simp: insert_or_replace_def list_all2_Cons1)
  next
    case (Inr r)
    then show ?thesis
      by (auto simp: insert_or_replace_def list_all2_Cons1 Cons.IH)
  qed
qed

lemma list_all2_compose_rows:
  assumes "list_all2 (\<lambda>obj t. row_tuple L res obj = Inr t) objs ts"
    and "list_all2 (\<lambda>t r. stored_row L t = Inr r) ts rs"
  shows "list_all2 (\<lambda>obj r. object_row L res obj = Inr r) objs rs"
  using assms
proof (induction objs ts arbitrary: rs rule: list_all2_induct)
  case Nil
  then show ?case by simp
next
  case (Cons obj objs t ts)
  then show ?case
    by (cases rs) (auto simp: object_row_def)
qed

lemma list_all2_split_rows:
  assumes "list_all2 (\<lambda>obj r. object_row L res obj = Inr r) objs rs"
  shows "\<exists>ts. list_all2 (\<lambda>obj t. row_tuple L res obj = Inr t) objs ts \<and>
      list_all2 (\<lambda>t r. stored_row L t = Inr r) ts rs"
  using assms
proof (induction objs rs rule: list_all2_induct)
  case Nil
  then show ?case by simp
next
  case (Cons obj objs r rs)
  from Cons.hyps(1) obtain t where t: "row_tuple L res obj = Inr t" "stored_row L t = Inr r"
    by (auto simp: object_row_def split: sum.splits)
  from Cons.IH obtain ts where
    "list_all2 (\<lambda>obj t. row_tuple L res obj = Inr t) objs ts"
    "list_all2 (\<lambda>t r. stored_row L t = Inr r) ts rs" by blast
  with t have "list_all2 (\<lambda>obj t. row_tuple L res obj = Inr t) (obj # objs) (t # ts) \<and>
      list_all2 (\<lambda>t r. stored_row L t = Inr r) (t # ts) (r # rs)" by simp
  then show ?case by blast
qed

lemma fetch_and_store_None:
  "fetch_and_store L E res w = (None, w') \<longleftrightarrow>
     (\<exists>j data objs rs.
        http E (snapshot_url res) = Json j \<and> subscript j ''data'' = Inr data \<and>
        iterate data = Inr objs \<and>
        list_all2 (\<lambda>obj r. object_row L res obj = Inr r) objs rs \<and>
        w' = w\<lparr>requests := requests w @ [snapshot_url res],
               conn := fold upsert rs (conn w),
               stderr := stderr w @ [res @ '': '' @ str_int (int (length objs)) @ '' rows'']\<rparr>)"
  (is "?lhs \<longleftrightarrow> ?rhs")
proof
  assume l: ?lhs
  then obtain j where j: "http E (snapshot_url res) = Json j"
    by (auto simp: fetch_and_store_def Let_def split: response.splits)
  from l j obtain data where d: "subscript j ''data'' = Inr data"
    by (auto simp: fetch_and_store_def Let_def split: sum.splits)
  from l j d obtain objs where o: "iterate data = Inr objs"
    by (auto simp: fetch_and_store_def Let_def split: sum.splits)
  from l j d o obtain ts where ts: "build_rows L res objs = Inr ts"
    by (auto simp: fetch_and_store_def Let_def split: sum.splits)
  from l j d o ts obtain tbl where
    tbl: "executemany L ts (conn w) = (None, tbl)"
    and w': "w' = w\<lparr>requests := requests w @ [snapshot_url res], conn := tbl,
               stderr := stderr w @ [res @ '': '' @ str_int (int (length ts)) @ '' rows'']\<rparr>"
    by (auto simp: fetch_and_store_def Let_def split: option.splits prod.splits)
  from tbl obtain rs where rs: "list_all2 (\<lambda>t r. stored_row L t = Inr r) ts rs"
    "tbl = fold upsert rs (conn w)"
    by (auto simp: executemany_None)
  from ts have a: "list_all2 (\<lambda>obj t. row_tuple L res obj = Inr t) objs ts"
    by (simp add: build_rows_Inr)
  then have len: "length ts = length objs" by (simp add: list_all2_lengthD)
  from a rs(1) have "list_all2 (\<lambda>obj r. object_row L res obj = Inr r) objs rs"
    by (rule list_all2_compose_rows)
  with j d o rs(2) w' len show ?rhs by auto
next
  assume ?rhs
  then obtain j data objs rs where
    j: "http E (snapshot_url res) = Json j" and d: "subscript j ''data'' = Inr data"
    and o: "iterate data = Inr objs"
    and rs: "list_all2 (\<lambda>obj r. object_row L res obj = Inr r) objs rs"
    and w': "w' = w\<lparr>requests := requests w @ [snapshot_url res],
               conn := fold upsert rs (conn w),
               stderr := stderr w @ [res @ '': '' @ str_int (int (length objs)) @ '' rows'']\<rparr>"
    by blast
  from rs obtain ts where ts: "list_all2 (\<lambda>obj t. row_tuple L res obj = Inr t) objs ts"
    "list_all2 (\<lambda>t r. stored_row L t = Inr r) ts rs"
    using list_all2_split_rows by blast
  then have b: "build_rows L res objs = Inr ts" by (simp add: build_rows_Inr)
  from ts(1) have len: "length ts = length objs" by (simp add: list_all2_lengthD)
  from ts(2) have e: "executemany L ts (conn w) = (None, fold upsert rs (conn w))"
    by (auto simp: executemany_None)
  from j d o b e len w' show ?lhs
    by (simp add: fetch_and_store_def Let_def)
qed

lemma object_row_fields:
  assumes "object_row L res obj = Inr r"
  shows "resource r = res \<and> payload r = dumps L obj"
  using assms
  by (auto simp: object_row_def row_tuple_def stored_row_def split: sum.splits)








lemmas sample_fetch_defs =
  fetch_and_store_def sample_lib_def Let_def snapshot_url_def CDN_BASE_def row_tuple_def
  insert_or_replace_def stored_row_def

lemma sample_fetch_ok:
  "fst (fetch_and_store sample_lib sample_env ''net'' empty_world) = None"
  by (simp add: sample_fetch_defs sample_env_def empty_world_def sample_objs_def)





lemma fold_upsert_twice: "fold upsert rs (fold upsert rs tbl) = fold upsert rs tbl"
proof -
  have a: "filter (\<lambda>x. key x \<notin> key ` set rs) (last_rows rs) = []"
    using key_set_last_rows [of rs] by (auto simp: filter_empty_conv)
  have b: "filter (\<lambda>x. key x \<notin> key ` set rs) (filter (\<lambda>x. key x \<notin> key ` set rs) tbl)
      = filter (\<lambda>x. key x \<notin> key ` set rs) tbl"
    by simp
  have "fold upsert rs (fold upsert rs tbl) =
      filter (\<lambda>x. key x \<notin> key ` set rs) (fold upsert rs tbl) @ last_rows rs"
    by (rule fold_upsert)
  also have "\<dots> =
      (filter (\<lambda>x. key x \<notin> key ` set rs) (filter (\<lambda>x. key x \<notin> key ` set rs) tbl) @
      filter (\<lambda>x. key x \<notin> key ` set rs) (last_rows rs)) @ last_rows rs"
    by (simp only: fold_upsert [of rs tbl] filter_append)
  also have "\<dots> = fold upsert rs tbl"
    by (simp only: a b append_Nil2 fold_upsert [of rs tbl])
  finally show ?thesis .
qed

text \<open>
  C4. \<open>fetch_and_store\<close> is idempotent: whatever the table holds, when a call
  completes, a second call with the same input completes as well and leaves the table
  exactly as the first call left it (the same rows in the same order); the committed
  file and the text files are not touched.
\<close>

theorem fetch_and_store_idempotent:
  assumes "fetch_and_store L E res w = (None, w1)"
  shows "\<exists>w2. fetch_and_store L E res w1 = (None, w2) \<and> conn w2 = conn w1 \<and>
     db w2 = db w1 \<and> files w2 = files w1"
proof -
  from assms obtain j data objs rs where
    j: "http E (snapshot_url res) = Json j" and d: "subscript j ''data'' = Inr data"
    and o: "iterate data = Inr objs"
    and rs: "list_all2 (\<lambda>obj r. object_row L res obj = Inr r) objs rs"
    and w1: "conn w1 = fold upsert rs (conn w)"
    by (auto simp: fetch_and_store_None)
  define w2 where "w2 = w1\<lparr>requests := requests w1 @ [snapshot_url res],
               conn := fold upsert rs (conn w1),
               stderr := stderr w1 @ [res @ '': '' @ str_int (int (length objs)) @ '' rows'']\<rparr>"
  have "fetch_and_store L E res w1 = (None, w2)"
    unfolding fetch_and_store_None using j d o rs w2_def by blast
  moreover have "conn w2 = conn w1"
    by (simp add: w2_def w1 fold_upsert_twice)
  moreover have "db w2 = db w1 \<and> files w2 = files w1"
    by (simp add: w2_def)
  ultimately show ?thesis by blast
qed

theorem fetch_and_store_idempotent_witness:
  "fst (fetch_and_store sample_lib sample_env ''net'' empty_world) = None \<and>
   (\<exists>w2. fetch_and_store sample_lib sample_env ''net''
       (snd (fetch_and_store sample_lib sample_env ''net'' empty_world)) = (None, w2) \<and>
     conn w2 = conn (snd (fetch_and_store sample_lib sample_env ''net'' empty_world)))"
proof -
  have ok: "fetch_and_store sample_lib sample_env ''net'' empty_world =
      (None, snd (fetch_and_store sample_lib sample_env ''net'' empty_world))"
    using sample_fetch_ok by (simp add: prod_eq_iff)
  from fetch_and_store_idempotent [OF ok] sample_fetch_ok show ?thesis by blast
qed

lemma unique_keys_upsert:
  assumes "unique_keys tbl"
  shows "unique_keys (upsert r tbl)"
  using assms by (auto simp: unique_keys_def upsert_eq distinct_map_filter)

lemma filter_same_key_upsert: "filter (same_key r) (upsert r tbl) = [r]"
  by (simp add: upsert_def same_key_def)

lemma unique_keys_executemany:
  assumes "unique_keys tbl" and "executemany L ts tbl = (x, tbl')"
  shows "unique_keys tbl'"
  using assms
proof (induction ts arbitrary: tbl)
  case Nil
  then show ?case by simp
next
  case (Cons t ts)
  show ?case
  proof (cases "stored_row L t")
    case (Inl e)
    with Cons.prems show ?thesis by (simp add: insert_or_replace_def)
  next
    case (Inr r)
    with Cons.prems have "executemany L ts (upsert r tbl) = (x, tbl')"
      by (simp add: insert_or_replace_def)
    moreover have "unique_keys (upsert r tbl)"
      using Cons.prems(1) by (rule unique_keys_upsert)
    ultimately show ?thesis using Cons.IH by blast
  qed
qed

lemma fetch_and_store_conn:
  assumes "fetch_and_store L E res w = (x, w')"
  shows "conn w' = conn w \<or> (\<exists>ts y. executemany L ts (conn w) = (y, conn w'))"
  using assms
  by (auto simp: fetch_and_store_def Let_def
      split: response.splits sum.splits option.splits prod.splits)

lemma unique_keys_fetch_and_store:
  assumes "unique_keys (conn w)" and "fetch_and_store L E res w = (x, w')"
  shows "unique_keys (conn w')"
  using fetch_and_store_conn [OF assms(2)] assms(1) unique_keys_executemany by metis

lemma unique_keys_for_each:
  assumes "unique_keys (conn w)" and "for_each (fetch_and_store L E) rs w = (x, w')"
  shows "unique_keys (conn w')"
  using assms
proof (induction rs arbitrary: w)
  case Nil
  then show ?case by simp
next
  case (Cons r rs)
  obtain y w1 where s: "fetch_and_store L E r w = (y, w1)" by (cases "fetch_and_store L E r w")
  then have u: "unique_keys (conn w1)"
    using Cons.prems(1) unique_keys_fetch_and_store by blast
  show ?case
  proof (cases y)
    case None
    with s Cons.prems(2) have "for_each (fetch_and_store L E) rs w1 = (x, w')"
      by (simp add: seq_def)
    with u Cons.IH show ?thesis by blast
  next
    case (Some e)
    with s Cons.prems(2) have "w' = w1" by (simp add: seq_def)
    with u show ?thesis by simp
  qed
qed

lemma import_phase_None:
  "import_phase L E rs w = (None, w') \<longleftrightarrow>
     writable E DB_PATH \<and>
     (\<exists>w1. for_each (fetch_and_store L E) rs (w\<lparr>db := Some [], conn := []\<rparr>) = (None, w1) \<and>
        w' = w1\<lparr>db := Some (conn w1)\<rparr>)"
  by (auto simp: import_phase_def seq_def init_db_def commit_def split: option.splits prod.splits)

text \<open>
  C7. At most one row per \<open>(resource, obj_id)\<close>: \<open>fetch_and_store\<close> keeps the
  keys of the table unique however it ends, the table committed by the import phase has
  unique keys, an upsert keeps them unique, and after an upsert the new row is the only
  row of its key, so re-importing a key replaces the prior row.
\<close>

theorem primary_key_unique:
  "(unique_keys (conn w) \<and> fetch_and_store L E res w = (x, w') \<longrightarrow> unique_keys (conn w')) \<and>
   (import_phase L E rs w0 = (None, w1) \<longrightarrow> (\<exists>tbl. db w1 = Some tbl \<and> unique_keys tbl)) \<and>
   (unique_keys tbl \<longrightarrow> unique_keys (upsert r tbl)) \<and>
   filter (same_key r) (upsert r tbl) = [r]"
proof -
  have a: "unique_keys (conn w) \<and> fetch_and_store L E res w = (x, w') \<longrightarrow> unique_keys (conn w')"
    using unique_keys_fetch_and_store by blast
  have b: "import_phase L E rs w0 = (None, w1) \<longrightarrow> (\<exists>tbl. db w1 = Some tbl \<and> unique_keys tbl)"
  proof
    assume "import_phase L E rs w0 = (None, w1)"
    then obtain v where v: "for_each (fetch_and_store L E) rs (w0\<lparr>db := Some [], conn := []\<rparr>) = (None, v)"
      and w1: "w1 = v\<lparr>db := Some (conn v)\<rparr>"
      by (auto simp: import_phase_None)
    have "unique_keys (conn (w0\<lparr>db := Some [], conn := []\<rparr>))"
      by (simp add: unique_keys_def)
    with v have "unique_keys (conn v)" using unique_keys_for_each by blast
    with w1 show "\<exists>tbl. db w1 = Some tbl \<and> unique_keys tbl" by simp
  qed
  have c: "unique_keys tbl \<longrightarrow> unique_keys (upsert r tbl)"
    using unique_keys_upsert by blast
  from a b c filter_same_key_upsert show ?thesis by blast
qed

lemma sample_import_ok:
  "fst (import_phase sample_lib sample_env [''net'', ''ix''] empty_world) = None"
  by (simp add: import_phase_def seq_def init_db_def commit_def DB_PATH_def
     sample_fetch_defs sample_env_def empty_world_def sample_objs_def)

theorem primary_key_unique_witness:
  "unique_keys (conn empty_world) \<and>
   fst (fetch_and_store sample_lib sample_env ''net'' empty_world) = None \<and>
   unique_keys (conn (snd (fetch_and_store sample_lib sample_env ''net'' empty_world))) \<and>
   fst (import_phase sample_lib sample_env [''net'', ''ix''] empty_world) = None \<and>
   (\<exists>tbl. db (snd (import_phase sample_lib sample_env [''net'', ''ix''] empty_world)) = Some tbl \<and>
      unique_keys tbl) \<and>
   unique_keys [\<lparr>resource = ''net'', obj_id = Integer 1, updated = [], payload = ''{}''\<rparr>] \<and>
   unique_keys (upsert \<lparr>resource = ''net'', obj_id = Integer 1, updated = ''x'', payload = ''{}''\<rparr>
      [\<lparr>resource = ''net'', obj_id = Integer 1, updated = [], payload = ''{}''\<rparr>])"
proof -
  let ?f = "fetch_and_store sample_lib sample_env ''net'' empty_world"
  let ?i = "import_phase sample_lib sample_env [''net'', ''ix''] empty_world"
  let ?t = "[\<lparr>resource = ''net'', obj_id = Integer 1, updated = [], payload = ''{}''\<rparr>]"
  let ?r = "\<lparr>resource = ''net'', obj_id = Integer 1, updated = ''x'', payload = ''{}''\<rparr>"
  have u0: "unique_keys (conn empty_world)"
    by (simp add: empty_world_def unique_keys_def)
  have f: "?f = (fst ?f, snd ?f)" by simp
  have i: "?i = (None, snd ?i)"
    using sample_import_ok by (simp add: prod_eq_iff)
  have t: "unique_keys ?t"
    by (simp add: unique_keys_def)
  note inst = primary_key_unique [of empty_world sample_lib sample_env "''net''" "fst ?f" "snd ?f"
      "[''net'', ''ix'']" empty_world "snd ?i" ?t ?r]
  from inst u0 f have a: "unique_keys (conn (snd ?f))" by blast
  from inst i have b: "\<exists>tbl. db (snd ?i) = Some tbl \<and> unique_keys tbl" by blast
  from inst t have c: "unique_keys (upsert ?r ?t)" by blast
  from u0 sample_fetch_ok a sample_import_ok b t c show ?thesis by blast
qed

section \<open>The chunk files\<close>

lemma write_rows_eq: "write_rows L res rs f = f @ map (insert_statement L res) rs"
  by (induction rs arbitrary: f) simp_all

lemma chunk_writes_eq:
  "chunk_writes L res tbl =
     delete_statement res # map (insert_statement L res) (select_resource L res tbl)"
  by (simp add: chunk_writes_def write_rows_eq)


lemma write_chunk_Some:
  assumes "db w = Some tbl" and "writable E (chunk_path res)"
  shows "write_chunk L E res w =
     (None, w\<lparr>files := (files w)(chunk_path res \<mapsto> concat (chunk_writes L res tbl)),
              stdout := stdout w @ [chunk_message res]\<rparr>)"
  using assms
  by (simp add: write_chunk_def Let_def seq_def write_file_def say_def chunk_path_def
      chunk_message_def)

lemma write_chunk_fail:
  assumes "db w = Some tbl" and "\<not> writable E (chunk_path res)"
  shows "write_chunk L E res w = (Some OSError, w)"
  using assms
  by (simp add: write_chunk_def Let_def seq_def write_file_def chunk_path_def)






section \<open>The run\<close>

subsection \<open>Steps, failures and what a step keeps\<close>

lemma seq_None: "seq a b w = (None, w') \<longleftrightarrow> (\<exists>w1. a w = (None, w1) \<and> b w1 = (None, w'))"
  by (auto simp: seq_def split: prod.splits option.splits)

lemma for_each_None_elem:
  assumes "for_each body rs w = (None, w')" and "r \<in> set rs"
  shows "\<exists>v v'. body r v = (None, v')"
  using assms
proof (induction rs arbitrary: w)
  case Nil
  then show ?case by simp
next
  case (Cons a rs)
  from Cons.prems(1) obtain w1 where w1: "body a w = (None, w1)" "for_each body rs w1 = (None, w')"
    by (auto simp: seq_None)
  show ?case
  proof (cases "r = a")
    case True
    with w1(1) show ?thesis by blast
  next
    case False
    with Cons.prems(2) have "r \<in> set rs" by simp
    with w1(2) Cons.IH show ?thesis by blast
  qed
qed

lemma executemany_fst: "fst (executemany L ts tbl) = fst (executemany L ts tbl')"
proof (induction ts arbitrary: tbl tbl')
  case Nil
  show ?case by simp
next
  case (Cons t ts)
  show ?case
    by (cases "stored_row L t") (simp_all add: insert_or_replace_def Cons.IH [of "upsert _ tbl" "upsert _ tbl'"])
qed

lemma fetch_and_store_fst:
  "fst (fetch_and_store L E res w) = fst (fetch_and_store L E res v)"
proof -
  have "\<And>ts. fst (executemany L ts (conn w)) = fst (executemany L ts (conn v))"
    by (rule executemany_fst)
  then have e: "\<And>ts x tbl. executemany L ts (conn w) = (x, tbl) \<Longrightarrow>
      \<exists>tbl'. executemany L ts (conn v) = (x, tbl')"
    by (metis fst_conv prod.collapse)
  show ?thesis
  proof (cases "http E (snapshot_url res)")
    case Unreachable
    then show ?thesis by (simp add: fetch_and_store_def Let_def)
  next
    case NotJson
    then show ?thesis by (simp add: fetch_and_store_def Let_def)
  next
    case (Json j)
    show ?thesis
    proof (cases "subscript j ''data''")
      case (Inl e1)
      with Json show ?thesis by (simp add: fetch_and_store_def Let_def)
    next
      case d: (Inr data)
      show ?thesis
      proof (cases "iterate data")
        case (Inl e2)
        with Json d show ?thesis by (simp add: fetch_and_store_def Let_def)
      next
        case o: (Inr objs)
        show ?thesis
        proof (cases "build_rows L res objs")
          case (Inl e3)
          with Json d o show ?thesis by (simp add: fetch_and_store_def Let_def)
        next
          case (Inr ts)
          obtain x tbl where x: "executemany L ts (conn w) = (x, tbl)"
            by (cases "executemany L ts (conn w)")
          with e obtain tbl' where x': "executemany L ts (conn v) = (x, tbl')" by blast
          from Json d o Inr x x' show ?thesis
            by (cases x) (simp_all add: fetch_and_store_def Let_def)
        qed
      qed
    qed
  qed
qed

lemma run_None_fetch:
  assumes "run L E rs w = (None, w')" and "r \<in> set rs"
  shows "fst (fetch_and_store L E r v) = None"
proof -
  from assms(1) obtain w1 w2 where "for_each (fetch_and_store L E) rs w1 = (None, w2)"
    by (auto simp: run_def import_phase_def seq_None)
  with assms(2) obtain u u' where "fetch_and_store L E r u = (None, u')"
    using for_each_None_elem by blast
  then have "fst (fetch_and_store L E r u) = None" by simp
  then show ?thesis using fetch_and_store_fst by metis
qed

lemma main_exit:
  "fst (main L E w) = (case fst (run L E RESOURCES w) of None \<Rightarrow> 0 | Some e \<Rightarrow> 1)"
  by (simp add: main_def split: prod.splits option.splits)

lemma object_row_missing_id:
  assumes "map_of kvs ''id'' = None"
  shows "\<exists>e. object_row L res (JObj kvs) = Inl e \<and>
     ((\<exists>v. bind_param (case map_of kvs ''updated'' of None \<Rightarrow> JStr [] | Some u \<Rightarrow> u) = Inr v) \<longrightarrow>
        e = IntegrityError)"
  using assms
  by (cases "bind_param (case map_of kvs ''updated'' of None \<Rightarrow> JStr [] | Some u \<Rightarrow> u)")
     (simp_all add: object_row_def row_tuple_def stored_row_def)

lemma integer_column_not_null:
  assumes "integer_column L v = Inr k"
  shows "k \<noteq> Null"
  using assms by (cases v) (auto split: option.splits numeric.splits)

lemma stored_row_not_null:
  assumes "stored_row L t = Inr r"
  shows "obj_id r \<noteq> Null"
  using assms integer_column_not_null
  by (auto simp: stored_row_def split: prod.splits sum.splits)

lemma executemany_not_null:
  assumes "executemany L ts tbl = (x, tbl')" and "\<forall>r \<in> set tbl. obj_id r \<noteq> Null"
  shows "\<forall>r \<in> set tbl'. obj_id r \<noteq> Null"
  using assms
proof (induction ts arbitrary: tbl)
  case Nil
  then show ?case by simp
next
  case (Cons t ts)
  show ?case
  proof (cases "stored_row L t")
    case (Inl e)
    with Cons.prems show ?thesis by (simp add: insert_or_replace_def)
  next
    case (Inr r)
    with Cons.prems(1) have e: "executemany L ts (upsert r tbl) = (x, tbl')"
      by (simp add: insert_or_replace_def)
    have "\<forall>y \<in> set (upsert r tbl). obj_id y \<noteq> Null"
      using Cons.prems(2) stored_row_not_null [OF Inr] by (auto simp: upsert_def)
    with e Cons.IH show ?thesis by blast
  qed
qed

lemma fetch_and_store_not_null:
  assumes "fetch_and_store L E res w = (x, w')" and "\<forall>r \<in> set (conn w). obj_id r \<noteq> Null"
  shows "\<forall>r \<in> set (conn w'). obj_id r \<noteq> Null"
proof -
  from fetch_and_store_conn [OF assms(1)]
  consider "conn w' = conn w" | ts y where "executemany L ts (conn w) = (y, conn w')"
    by blast
  then show ?thesis
  proof cases
    case 1
    with assms(2) show ?thesis by simp
  next
    case 2
    with assms(2) show ?thesis using executemany_not_null by blast
  qed
qed

lemma grows_refl: "grows w w"
  by (simp add: grows_def)

lemma grows_trans: "grows a b \<Longrightarrow> grows b c \<Longrightarrow> grows a c"
  unfolding grows_def by (meson prefix_order.order_trans)

lemma keeps_seq:
  assumes "keeps a" and "keeps b"
  shows "keeps (seq a b)"
  unfolding keeps_def
proof (intro allI impI)
  fix w x w' assume s: "seq a b w = (x, w')"
  obtain y w1 where a: "a w = (y, w1)" by (cases "a w")
  with assms(1) have g1: "grows w w1" by (auto simp: keeps_def)
  show "grows w w'"
  proof (cases y)
    case None
    with s a have "b w1 = (x, w')" by (simp add: seq_def)
    with assms(2) have "grows w1 w'" by (auto simp: keeps_def)
    with g1 show ?thesis by (rule grows_trans)
  next
    case (Some e)
    with s a have "w' = w1" by (simp add: seq_def)
    with g1 show ?thesis by simp
  qed
qed

lemma keeps_for_each:
  assumes "\<And>r. keeps (body r)"
  shows "keeps (for_each body rs)"
proof (induction rs)
  case Nil
  show ?case by (simp add: keeps_def grows_refl)
next
  case (Cons r rs)
  have "for_each body (r # rs) = seq (body r) (for_each body rs)"
    by (rule ext) simp
  with keeps_seq [OF assms [of r] Cons] show ?case by simp
qed

lemma keeps_write_file: "keeps (write_file E p c)"
  by (auto simp: keeps_def write_file_def grows_def)

lemma keeps_say: "keeps (say m)"
  by (auto simp: keeps_def say_def grows_def)

lemma keeps_makedirs: "keeps (makedirs E)"
  by (auto simp: keeps_def makedirs_def grows_def)

lemma keeps_init_db: "keeps (init_db E)"
  by (auto simp: keeps_def init_db_def grows_def)

lemma keeps_commit: "keeps commit"
  by (auto simp: keeps_def commit_def grows_def)

lemma fetch_and_store_effects:
  assumes "fetch_and_store L E res w = (x, w')"
  shows "requests w' = requests w @ [snapshot_url res] \<and> files w' = files w \<and>
     db w' = db w \<and> stdout w' = stdout w \<and>
     (x \<noteq> None \<longrightarrow> stderr w' = stderr w) \<and>
     (x = None \<longrightarrow> (\<exists>line. stderr w' = stderr w @ [line]))"
  using assms
  by (auto simp: fetch_and_store_def Let_def
      split: response.splits sum.splits option.splits prod.splits)

lemma keeps_fetch_and_store: "keeps (fetch_and_store L E res)"
  unfolding keeps_def grows_def
proof (intro allI impI)
  fix w x w' assume "fetch_and_store L E res w = (x, w')"
  from fetch_and_store_effects [OF this]
  show "(\<forall>p. files w p \<noteq> None \<longrightarrow> files w' p \<noteq> None) \<and>
      prefix (requests w) (requests w') \<and> prefix (stdout w) (stdout w') \<and>
      prefix (stderr w) (stderr w')"
    by (cases x) auto
qed

lemma keeps_write_chunk: "keeps (write_chunk L E res)"
  unfolding keeps_def
proof (intro allI impI)
  fix w x w' assume s: "write_chunk L E res w = (x, w')"
  show "grows w w'"
  proof (cases "db w")
    case None
    with s show ?thesis
      by (auto simp: write_chunk_def Let_def grows_def split: if_splits)
  next
    case (Some tbl)
    have "keeps (seq (write_file E (path_join D1_DIR (res @ ''.sql'')) (concat (chunk_writes L res tbl)))
              (say (''wrote chunk '' @ path_join D1_DIR (res @ ''.sql''))))"
      by (intro keeps_seq keeps_write_file keeps_say)
    with s Some show ?thesis
      by (simp add: write_chunk_def Let_def keeps_def)
  qed
qed

lemma keeps_write_filtered_dump: "keeps (write_filtered_dump E)"
  unfolding keeps_def
proof (intro allI impI)
  fix w x w' assume s: "write_filtered_dump E w = (x, w')"
  show "grows w w'"
  proof (cases "files w SQL_PATH")
    case None
    with s show ?thesis by (simp add: write_filtered_dump_def grows_refl)
  next
    case (Some c)
    with s keeps_write_file show ?thesis
      by (simp add: write_filtered_dump_def keeps_def)
  qed
qed

lemma keeps_write_full_dump: "keeps (write_full_dump L E)"
  using keeps_write_file by (simp add: keeps_def write_full_dump_def)

lemma keeps_run: "keeps (run L E rs)"
  unfolding run_def import_phase_def export_phase_def
  by (intro keeps_seq keeps_for_each keeps_makedirs keeps_init_db keeps_commit
      keeps_fetch_and_store keeps_write_full_dump keeps_say keeps_write_file keeps_write_chunk
      keeps_write_filtered_dump)

lemma for_each_fetch_fail:
  assumes "\<forall>p \<in> set pre. fst (fetch_and_store L E p v) = None"
    and "fst (fetch_and_store L E r v) = Some e"
  shows "\<exists>w'. for_each (fetch_and_store L E) (pre @ r # post) w = (Some e, w') \<and>
     requests w' = requests w @ map snapshot_url (pre @ [r]) \<and> files w' = files w \<and>
     db w' = db w \<and> stdout w' = stdout w \<and>
     length (stderr w') = length (stderr w) + length pre"
  using assms(1)
proof (induction pre arbitrary: w)
  case Nil
  have "fst (fetch_and_store L E r w) = Some e"
    using assms(2) fetch_and_store_fst by metis
  then obtain w' where f: "fetch_and_store L E r w = (Some e, w')"
    by (cases "fetch_and_store L E r w") auto
  from fetch_and_store_effects [OF f] f show ?case
    by (auto simp: seq_def)
next
  case (Cons p pre)
  have "fst (fetch_and_store L E p w) = None"
    using Cons.prems fetch_and_store_fst by (metis list.set_intros(1))
  then obtain w1 where f: "fetch_and_store L E p w = (None, w1)"
    by (cases "fetch_and_store L E p w") auto
  from Cons.prems have "\<forall>q \<in> set pre. fst (fetch_and_store L E q v) = None" by simp
  from Cons.IH [OF this, of w1] obtain w' where
    w': "for_each (fetch_and_store L E) (pre @ r # post) w1 = (Some e, w')"
      "requests w' = requests w1 @ map snapshot_url (pre @ [r])" "files w' = files w1"
      "db w' = db w1" "stdout w' = stdout w1"
      "length (stderr w') = length (stderr w1) + length pre"
    by blast
  from fetch_and_store_effects [OF f]
  have e1: "requests w1 = requests w @ [snapshot_url p]" "files w1 = files w" "db w1 = db w"
    "stdout w1 = stdout w" "length (stderr w1) = Suc (length (stderr w))"
    by auto
  have "for_each (fetch_and_store L E) ((p # pre) @ r # post) w = (Some e, w')"
    using f w'(1) by (simp add: seq_def)
  with w' e1 show ?case by auto
qed

lemma run_import_fail:
  assumes "writable E D1_DIR" and "writable E DB_PATH"
    and "\<forall>p \<in> set pre. fst (fetch_and_store L E p v) = None"
    and "fst (fetch_and_store L E r v) = Some e"
  shows "\<exists>w'. run L E (pre @ r # post) w = (Some e, w') \<and>
     requests w' = requests w @ map snapshot_url (pre @ [r]) \<and> files w' = files w \<and>
     db w' = Some [] \<and> stdout w' = stdout w \<and>
     length (stderr w') = length (stderr w) + length pre"
proof -
  from for_each_fetch_fail [OF assms(3,4), of post "w\<lparr>db := Some [], conn := []\<rparr>"]
  obtain w' where
    w': "for_each (fetch_and_store L E) (pre @ r # post) (w\<lparr>db := Some [], conn := []\<rparr>) = (Some e, w')"
      "requests w' = requests w @ map snapshot_url (pre @ [r])" "files w' = files w"
      "db w' = Some []" "stdout w' = stdout w"
      "length (stderr w') = length (stderr w) + length pre"
    by auto
  have "run L E (pre @ r # post) w = (Some e, w')"
    using assms(1,2) w'(1)
    by (simp add: run_def import_phase_def seq_def makedirs_def init_db_def)
  with w' show ?thesis by blast
qed

lemma write_chunk_None:
  assumes "write_chunk L E p v = (None, v')"
  shows "writable E (path_join D1_DIR (p @ ''.sql''))"
  using assms
  by (cases "db v") (auto simp: write_chunk_def Let_def seq_def write_file_def split: if_splits)

lemma run_None_writable:
  assumes "run L E rs w = (None, w')"
  shows "writable E D1_DIR \<and> writable E DB_PATH \<and> writable E SQL_PATH \<and>
     writable E (path_join D1_DIR ''00_schema.sql'') \<and>
     (\<forall>p \<in> set rs. writable E (path_join D1_DIR (p @ ''.sql''))) \<and> writable E D1_SQL_PATH"
proof -
  from assms obtain w1 w2 where
    m: "makedirs E w = (None, w1)" and i: "import_phase L E rs w1 = (None, w2)"
    and x: "export_phase L E rs w2 = (None, w')"
    by (auto simp: run_def seq_None)
  from m have a: "writable E D1_DIR"
    by (auto simp: makedirs_def split: if_splits)
  from i have b: "writable E DB_PATH"
    by (auto simp: import_phase_def seq_None init_db_def split: if_splits)
  from x obtain u1 u2 u3 u4 u5 u6 where
    d: "write_full_dump L E w2 = (None, u1)"
    and s: "write_file E (path_join D1_DIR ''00_schema.sql'') schema_text u2 = (None, u3)"
    and c: "for_each (write_chunk L E) rs u4 = (None, u5)"
    and f: "write_filtered_dump E u5 = (None, u6)"
    unfolding export_phase_def seq_None by blast
  from d have c1: "writable E SQL_PATH"
    by (auto simp: write_full_dump_def write_file_def split: if_splits)
  from s have c2: "writable E (path_join D1_DIR ''00_schema.sql'')"
    by (auto simp: write_file_def split: if_splits)
  have c3: "\<forall>p \<in> set rs. writable E (path_join D1_DIR (p @ ''.sql''))"
  proof
    fix p assume "p \<in> set rs"
    with c obtain v v' where "write_chunk L E p v = (None, v')"
      using for_each_None_elem by blast
    then show "writable E (path_join D1_DIR (p @ ''.sql''))" by (rule write_chunk_None)
  qed
  from f have c4: "writable E D1_SQL_PATH"
    by (auto simp: write_filtered_dump_def write_file_def split: option.splits if_splits)
  from a b c1 c2 c3 c4 show ?thesis by blast
qed

lemma last_rows_subset: "set (last_rows rs) \<subseteq> set rs"
  by (induction rs) auto

lemma fetch_and_store_None_fetched:
  assumes "fetch_and_store L E res w = (None, w')"
  obtains rs where "list_all2 (\<lambda>obj r. object_row L res obj = Inr r) (fetched E res) rs"
    and "conn w' = fold upsert rs (conn w)"
  using assms unfolding fetch_and_store_None fetched_def by auto

lemma rows_from_fetched:
  assumes "list_all2 (\<lambda>obj r. object_row L res obj = Inr r) objs rs" and "r \<in> set rs"
  shows "\<exists>obj \<in> set objs. object_row L res obj = Inr r"
proof -
  from assms(2) obtain i where i: "i < length rs" "r = rs ! i"
    by (auto simp: in_set_conv_nth)
  from assms(1) i have "object_row L res (objs ! i) = Inr r" "i < length objs"
    by (auto simp: list_all2_conv_all_nth)
  then show ?thesis using nth_mem by blast
qed

lemma fetch_and_store_new_rows:
  assumes "fetch_and_store L E res w = (None, w')" and "r \<in> set (conn w')"
  shows "r \<in> set (conn w) \<or> (\<exists>obj \<in> set (fetched E res). object_row L res obj = Inr r)"
proof -
  from assms(1) obtain rs where
    rs: "list_all2 (\<lambda>obj r. object_row L res obj = Inr r) (fetched E res) rs"
    and c: "conn w' = fold upsert rs (conn w)"
    by (rule fetch_and_store_None_fetched)
  from assms(2) c have "r \<in> set (conn w) \<or> r \<in> set (last_rows rs)"
    by (auto simp: fold_upsert)
  with last_rows_subset have "r \<in> set (conn w) \<or> r \<in> set rs" by blast
  with rows_from_fetched [OF rs] show ?thesis by blast
qed

lemma fetch_and_store_old_rows:
  assumes "fetch_and_store L E res w = (None, w')" and "r \<in> set (conn w)"
  shows "r \<in> set (conn w') \<or>
     (\<exists>obj \<in> set (fetched E res). \<exists>r'. object_row L res obj = Inr r' \<and> key r' = key r)"
proof -
  from assms(1) obtain rs where
    rs: "list_all2 (\<lambda>obj r. object_row L res obj = Inr r) (fetched E res) rs"
    and c: "conn w' = fold upsert rs (conn w)"
    by (rule fetch_and_store_None_fetched)
  show ?thesis
  proof (cases "key r \<in> key ` set rs")
    case True
    then obtain r' where "r' \<in> set rs" "key r' = key r" by auto
    with rows_from_fetched [OF rs] show ?thesis by blast
  next
    case False
    with assms(2) c show ?thesis by (simp add: fold_upsert)
  qed
qed

lemma for_each_new_rows:
  assumes "for_each (fetch_and_store L E) rs w = (None, w')" and "r \<in> set (conn w')"
  shows "r \<in> set (conn w) \<or>
     (\<exists>res \<in> set rs. \<exists>obj \<in> set (fetched E res). object_row L res obj = Inr r)"
  using assms
proof (induction rs arbitrary: w)
  case Nil
  then show ?case by simp
next
  case (Cons a rs)
  from Cons.prems(1) obtain w1 where
    f: "fetch_and_store L E a w = (None, w1)"
    and g: "for_each (fetch_and_store L E) rs w1 = (None, w')"
    by (auto simp: seq_None)
  from Cons.IH [OF g Cons.prems(2)]
  consider "r \<in> set (conn w1)"
    | "\<exists>res \<in> set rs. \<exists>obj \<in> set (fetched E res). object_row L res obj = Inr r"
    by blast
  then show ?case
  proof cases
    case 1
    from fetch_and_store_new_rows [OF f 1] show ?thesis by auto
  next
    case 2
    then show ?thesis by auto
  qed
qed

lemma export_phase_db:
  assumes "export_phase L E rs w = (x, w')"
  shows "db w' = db w \<and> conn w' = conn w"
proof -
  define same where "same = (\<lambda>s :: step. \<forall>w x w'. s w = (x, w') \<longrightarrow> db w' = db w \<and> conn w' = conn w)"
  have sq: "same (seq a b)" if "same a" "same b" for a b
    unfolding same_def
  proof (intro allI impI)
    fix w x w' assume s: "seq a b w = (x, w')"
    obtain y w1 where a: "a w = (y, w1)" by (cases "a w")
    with that(1) have 1: "db w1 = db w \<and> conn w1 = conn w" by (auto simp: same_def)
    show "db w' = db w \<and> conn w' = conn w"
    proof (cases y)
      case None
      with s a have "b w1 = (x, w')" by (simp add: seq_def)
      with that(2) 1 show ?thesis by (auto simp: same_def)
    next
      case (Some e)
      with s a 1 show ?thesis by (simp add: seq_def)
    qed
  qed
  have wf: "same (write_file E p c)" for p c
    by (auto simp: same_def write_file_def split: if_splits)
  have sy: "same (say m)" for m
    by (auto simp: same_def say_def)
  have wc: "same (write_chunk L E r)" for r
    unfolding same_def
  proof (intro allI impI)
    fix w x w' assume s: "write_chunk L E r w = (x, w')"
    show "db w' = db w \<and> conn w' = conn w"
    proof (cases "db w")
      case None
      with s show ?thesis by (auto simp: write_chunk_def Let_def split: if_splits)
    next
      case (Some tbl)
      have "same (seq (write_file E (path_join D1_DIR (r @ ''.sql'')) (concat (chunk_writes L r tbl)))
              (say (''wrote chunk '' @ path_join D1_DIR (r @ ''.sql''))))"
        by (intro sq wf sy)
      with s Some show ?thesis by (simp add: write_chunk_def Let_def same_def)
    qed
  qed
  have fe: "same (for_each (write_chunk L E) rs)"
  proof (induction rs)
    case Nil
    show ?case by (simp add: same_def)
  next
    case (Cons r rs)
    have "for_each (write_chunk L E) (r # rs) = seq (write_chunk L E r) (for_each (write_chunk L E) rs)"
      by (rule ext) simp
    with sq [OF wc [of r] Cons] show ?case by simp
  qed
  have fd: "same (write_filtered_dump E)"
    using wf by (auto simp: same_def write_filtered_dump_def split: option.splits)
  have dd: "same (write_full_dump L E)"
    using wf by (simp add: same_def write_full_dump_def)
  have "same (export_phase L E rs)"
    unfolding export_phase_def by (intro sq dd sy wf fe fd)
  with assms show ?thesis by (simp add: same_def)
qed

lemma fetch_and_store_errors:
  "(http E (snapshot_url r) = Unreachable \<longrightarrow> fst (fetch_and_store L E r v) = Some URLError) \<and>
   (http E (snapshot_url r) = NotJson \<longrightarrow> fst (fetch_and_store L E r v) = Some JSONDecodeError) \<and>
   (http E (snapshot_url r) = Json (JObj kvs) \<and> map_of kvs ''data'' = None \<longrightarrow>
      fst (fetch_and_store L E r v) = Some KeyError) \<and>
   (http E (snapshot_url r) = Json j \<and> subscript j ''data'' = Inr (JArr objs) \<and>
    build_rows L r objs = Inr ts \<and> fst (executemany L ts (conn v)) = Some e' \<longrightarrow>
      fst (fetch_and_store L E r v) = Some e')"
  by (auto simp: fetch_and_store_def Let_def split: prod.splits option.splits)

lemma filter_filter_implied:
  assumes "\<And>x. P x \<Longrightarrow> Q x"
  shows "filter P (filter Q xs) = filter P xs"
  using assms by (induction xs) auto

lemma fetch_and_store_frame:
  assumes "fetch_and_store L E r w = (None, w')" and "res \<noteq> r"
  shows "rows_of res (conn w') = rows_of res (conn w)"
proof -
  from assms(1) obtain rs where
    rs: "list_all2 (\<lambda>obj x. object_row L r obj = Inr x) (fetched E r) rs"
    and c: "conn w' = fold upsert rs (conn w)"
    by (rule fetch_and_store_None_fetched)
  have r: "\<forall>x \<in> set rs. resource x = r"
  proof
    fix x assume "x \<in> set rs"
    with rows_from_fetched [OF rs] obtain obj where "object_row L r obj = Inr x" by blast
    then show "resource x = r" using object_row_fields by blast
  qed
  have a: "filter (\<lambda>x. resource x = res) (filter (\<lambda>x. key x \<notin> key ` set rs) (conn w)) =
      filter (\<lambda>x. resource x = res) (conn w)"
  proof -
    have "\<And>x. resource x = res \<Longrightarrow> key x \<notin> key ` set rs"
      using r assms(2) by (auto simp: key_def)
    then show ?thesis
      by (rule filter_filter_implied)
  qed
  have b: "filter (\<lambda>x. resource x = res) (last_rows rs) = []"
    using r assms(2) last_rows_subset [of rs] by (auto simp: filter_empty_conv)
  have "rows_of res (conn w') =
      filter (\<lambda>x. resource x = res) (filter (\<lambda>x. key x \<notin> key ` set rs) (conn w)) @
      filter (\<lambda>x. resource x = res) (last_rows rs)"
    by (simp only: rows_of_def c fold_upsert filter_append)
  then show ?thesis
    by (simp only: a b append_Nil2 rows_of_def)
qed

lemma for_each_frame:
  assumes "for_each (fetch_and_store L E) rs w = (None, w')" and "res \<notin> set rs"
  shows "rows_of res (conn w') = rows_of res (conn w)"
  using assms
proof (induction rs arbitrary: w)
  case Nil
  then show ?case by simp
next
  case (Cons a rs)
  from Cons.prems(1) obtain w1 where
    f: "fetch_and_store L E a w = (None, w1)"
    and g: "for_each (fetch_and_store L E) rs w1 = (None, w')"
    by (auto simp: seq_None)
  from Cons.prems(2) have "res \<noteq> a" "res \<notin> set rs" by auto
  with fetch_and_store_frame [OF f] Cons.IH [OF g] show ?case by simp
qed

lemma for_each_fresh:
  assumes "for_each (fetch_and_store L E) (pre @ r # post) w = (None, w')"
    and "distinct (pre @ r # post)" and "rows_of r (conn w) = []"
  shows "\<exists>w1 w2. rows_of r (conn w1) = [] \<and>
     fetch_and_store L E r w1 = (None, w2) \<and>
     rows_of r (conn w') = rows_of r (conn w2)"
  using assms
proof (induction pre arbitrary: w)
  case Nil
  from Nil.prems(1) obtain w2 where
    f: "fetch_and_store L E r w = (None, w2)"
    and g: "for_each (fetch_and_store L E) post w2 = (None, w')"
    by (auto simp: seq_None)
  from Nil.prems(2) have "r \<notin> set post" by simp
  with for_each_frame [OF g] have "rows_of r (conn w') = rows_of r (conn w2)"
    by simp
  with f Nil.prems(3) show ?case by blast
next
  case (Cons a pre)
  from Cons.prems(1) obtain v where
    f: "fetch_and_store L E a w = (None, v)"
    and g: "for_each (fetch_and_store L E) (pre @ r # post) v = (None, w')"
    by (auto simp: seq_None)
  from Cons.prems(2) have ne: "r \<noteq> a" and d: "distinct (pre @ r # post)" by auto
  from fetch_and_store_frame [OF f ne] Cons.prems(3)
  have "rows_of r (conn v) = []" by simp
  from Cons.IH [OF g d this] show ?case .
qed

lemma import_phase_fresh:
  assumes "import_phase L E rs w = (None, w')" and "distinct rs" and "r \<in> set rs"
  shows "\<exists>w1 w2. rows_of r (conn w1) = [] \<and>
     fetch_and_store L E r w1 = (None, w2) \<and>
     (\<exists>tbl. db w' = Some tbl \<and> rows_of r tbl = rows_of r (conn w2))"
proof -
  from assms(1) obtain v where
    v: "for_each (fetch_and_store L E) rs (w\<lparr>db := Some [], conn := []\<rparr>) = (None, v)"
    and w': "w' = v\<lparr>db := Some (conn v)\<rparr>"
    by (auto simp: import_phase_None)
  from assms(3) obtain pre post where rs: "rs = pre @ r # post"
    by (auto simp: in_set_conv_decomp)
  have e: "rows_of r (conn (w\<lparr>db := Some [], conn := []\<rparr>)) = []"
    by (simp add: rows_of_def)
  from for_each_fresh [OF v [unfolded rs] assms(2) [unfolded rs] e]
  obtain w1 w2 where "rows_of r (conn w1) = []" "fetch_and_store L E r w1 = (None, w2)"
    "rows_of r (conn v) = rows_of r (conn w2)"
    by blast
  with w' show ?thesis by auto
qed

subsection \<open>The samples, evaluated\<close>

lemmas sample_defs = import_phase_def seq_def init_db_def commit_def DB_PATH_def RESOURCES_def
     fetch_and_store_def sample_lib_def sample_env_def empty_world_def stale_world_def Let_def
     snapshot_url_def CDN_BASE_def sample_objs_def row_tuple_def insert_or_replace_def stored_row_def
     upsert_def same_key_def sample_rows_def

lemmas run_defs = main_def run_def makedirs_def export_phase_def write_full_dump_def
  write_file_def say_def write_chunk_def write_filtered_dump_def SQL_PATH_def D1_DIR_def
  D1_SQL_PATH_def path_join_def

lemma sample_main_exit: "fst (main sample_lib sample_env stale_world) = 0"
  by (simp add: main_def run_def makedirs_def export_phase_def write_full_dump_def write_file_def
     say_def write_chunk_def write_filtered_dump_def SQL_PATH_def D1_DIR_def D1_SQL_PATH_def
     path_join_def sample_defs)

lemma sample_main_db: "db (snd (main sample_lib sample_env stale_world)) = Some sample_rows"
  by (simp add: main_def run_def makedirs_def export_phase_def write_full_dump_def write_file_def
     say_def write_chunk_def write_filtered_dump_def SQL_PATH_def D1_DIR_def D1_SQL_PATH_def
     path_join_def sample_defs)

lemma down_fetch_ok:
  "\<forall>p \<in> set [''org'', ''campus'']. fst (fetch_and_store sample_lib down_env p empty_world) = None"
  by (simp add: fetch_and_store_def down_env_def sample_lib_def empty_world_def Let_def
      snapshot_url_def CDN_BASE_def)

subsection \<open>What the export writes\<close>

lemma chunk_path_inj: "chunk_path a = chunk_path b \<longleftrightarrow> a = b"
  by (simp add: chunk_path_def path_join_def)

lemma paths_differ:
  "chunk_path r \<noteq> SQL_PATH" "chunk_path r \<noteq> D1_SQL_PATH"
  "schema_path \<noteq> SQL_PATH" "schema_path \<noteq> D1_SQL_PATH" "D1_SQL_PATH \<noteq> SQL_PATH"
  by (simp_all add: chunk_path_def schema_path_def path_join_def D1_DIR_def SQL_PATH_def
      D1_SQL_PATH_def)

lemma with_chunks_Cons:
  "with_chunks L tbl (r # rs) f =
     with_chunks L tbl rs (f(chunk_path r \<mapsto> concat (chunk_writes L r tbl)))"
  by (simp add: with_chunks_def)

lemma with_chunks_other:
  "\<forall>r \<in> set rs. chunk_path r \<noteq> p \<Longrightarrow> with_chunks L tbl rs f p = f p"
proof (induction rs arbitrary: f)
  case Nil
  show ?case by (simp add: with_chunks_def)
next
  case (Cons a rs)
  then have "with_chunks L tbl rs (f(chunk_path a \<mapsto> concat (chunk_writes L a tbl))) p =
      (f(chunk_path a \<mapsto> concat (chunk_writes L a tbl))) p"
    by simp
  with Cons.prems show ?case by (auto simp: with_chunks_Cons)
qed

lemma with_chunks_chunk:
  "r \<in> set rs \<Longrightarrow> with_chunks L tbl rs f (chunk_path r) = Some (concat (chunk_writes L r tbl))"
proof (induction rs arbitrary: f)
  case Nil
  then show ?case by simp
next
  case (Cons a rs)
  show ?case
  proof (cases "r \<in> set rs")
    case True
    then show ?thesis by (simp add: with_chunks_Cons Cons.IH)
  next
    case False
    with Cons.prems have a: "a = r" by simp
    from False have "\<forall>q \<in> set rs. chunk_path q \<noteq> chunk_path r"
      by (auto simp: chunk_path_inj)
    then show ?thesis by (simp add: with_chunks_Cons with_chunks_other a)
  qed
qed

lemma for_each_write_chunk_ok:
  assumes "db w = Some tbl" and "\<forall>p \<in> set rs. writable E (chunk_path p)"
  shows "for_each (write_chunk L E) rs w =
     (None, w\<lparr>files := with_chunks L tbl rs (files w),
              stdout := stdout w @ map chunk_message rs\<rparr>)"
  using assms
proof (induction rs arbitrary: w)
  case Nil
  show ?case by (simp add: with_chunks_def)
next
  case (Cons r rs)
  let ?w1 = "w\<lparr>files := (files w)(chunk_path r \<mapsto> concat (chunk_writes L r tbl)),
              stdout := stdout w @ [chunk_message r]\<rparr>"
  have 1: "write_chunk L E r w = (None, ?w1)"
    using Cons.prems by (simp add: write_chunk_Some)
  have "for_each (write_chunk L E) rs ?w1 =
     (None, ?w1\<lparr>files := with_chunks L tbl rs (files ?w1),
              stdout := stdout ?w1 @ map chunk_message rs\<rparr>)"
    using Cons.prems by (intro Cons.IH) simp_all
  with 1 show ?case by (simp add: seq_def with_chunks_Cons)
qed

lemma for_each_write_chunk_fail:
  assumes "db w = Some tbl" and "\<forall>p \<in> set pre. writable E (chunk_path p)"
    and "\<not> writable E (chunk_path r)"
  shows "for_each (write_chunk L E) (pre @ r # post) w =
     (Some OSError, w\<lparr>files := with_chunks L tbl pre (files w),
              stdout := stdout w @ map chunk_message pre\<rparr>)"
  using assms(1,2)
proof (induction pre arbitrary: w)
  case Nil
  then show ?case using assms(3) by (simp add: seq_def write_chunk_fail with_chunks_def)
next
  case (Cons a pre)
  let ?w1 = "w\<lparr>files := (files w)(chunk_path a \<mapsto> concat (chunk_writes L a tbl)),
              stdout := stdout w @ [chunk_message a]\<rparr>"
  have 1: "write_chunk L E a w = (None, ?w1)"
    using Cons.prems by (simp add: write_chunk_Some)
  have "for_each (write_chunk L E) (pre @ r # post) ?w1 =
     (Some OSError, ?w1\<lparr>files := with_chunks L tbl pre (files ?w1),
              stdout := stdout ?w1 @ map chunk_message pre\<rparr>)"
    using Cons.prems by (intro Cons.IH) simp_all
  with 1 show ?case by (simp add: seq_def with_chunks_Cons)
qed

lemma export_dump_fail:
  assumes "\<not> writable E SQL_PATH"
  shows "export_phase L E rs w = (Some OSError, w)"
  using assms by (simp add: export_phase_def seq_def write_full_dump_def write_file_def)

lemma export_schema_fail:
  assumes "writable E SQL_PATH" and "\<not> writable E schema_path"
  shows "export_phase L E rs w =
     (Some OSError, w\<lparr>files := (files w)(SQL_PATH \<mapsto> dump_text L (conn w)),
        stdout := stdout w @ take 1 dump_messages\<rparr>)"
  using assms
  by (simp add: export_phase_def seq_def write_full_dump_def write_file_def say_def
      schema_path_def dump_text_def dump_messages_def)

lemma export_phase_chunks:
  assumes "writable E SQL_PATH" and "writable E schema_path"
  shows "export_phase L E rs w =
     seq (for_each (write_chunk L E) rs) (seq (write_filtered_dump E) (say last_message))
       (w\<lparr>files := (files w)(SQL_PATH \<mapsto> dump_text L (conn w), schema_path \<mapsto> schema_text),
          stdout := stdout w @ dump_messages\<rparr>)"
  using assms
  by (simp add: export_phase_def seq_def write_full_dump_def write_file_def say_def
      schema_path_def dump_text_def dump_messages_def last_message_def)

lemma export_chunk_fail:
  assumes "writable E SQL_PATH" and "writable E schema_path" and "db w = Some tbl"
    and "\<forall>p \<in> set pre. writable E (chunk_path p)" and "\<not> writable E (chunk_path r)"
  shows "export_phase L E (pre @ r # post) w =
     (Some OSError,
      w\<lparr>files := with_chunks L tbl pre
           ((files w)(SQL_PATH \<mapsto> dump_text L (conn w), schema_path \<mapsto> schema_text)),
        stdout := stdout w @ dump_messages @ map chunk_message pre\<rparr>)"
proof -
  let ?w2 = "w\<lparr>files := (files w)(SQL_PATH \<mapsto> dump_text L (conn w), schema_path \<mapsto> schema_text),
          stdout := stdout w @ dump_messages\<rparr>"
  have "db ?w2 = Some tbl" using assms(3) by simp
  from for_each_write_chunk_fail [OF this assms(4,5), of L post]
  show ?thesis
    by (simp add: export_phase_chunks [OF assms(1,2)] seq_def)
qed

lemma export_filtered_fail:
  assumes "writable E SQL_PATH" and "writable E schema_path" and "db w = Some tbl"
    and "\<forall>p \<in> set rs. writable E (chunk_path p)" and "\<not> writable E D1_SQL_PATH"
  shows "export_phase L E rs w =
     (Some OSError,
      w\<lparr>files := with_chunks L tbl rs
           ((files w)(SQL_PATH \<mapsto> dump_text L (conn w), schema_path \<mapsto> schema_text)),
        stdout := stdout w @ dump_messages @ map chunk_message rs\<rparr>)"
proof -
  let ?w2 = "w\<lparr>files := (files w)(SQL_PATH \<mapsto> dump_text L (conn w), schema_path \<mapsto> schema_text),
          stdout := stdout w @ dump_messages\<rparr>"
  have "db ?w2 = Some tbl" using assms(3) by simp
  from for_each_write_chunk_ok [OF this assms(4), of L]
  show ?thesis
    using assms(5)
    by (simp add: export_phase_chunks [OF assms(1,2)] seq_def write_filtered_dump_def
        write_file_def split: option.splits)
qed

lemma export_ok:
  assumes "writable E SQL_PATH" and "writable E schema_path" and "db w = Some tbl"
    and "\<forall>p \<in> set rs. writable E (chunk_path p)" and "writable E D1_SQL_PATH"
  shows "export_phase L E rs w =
     (None,
      w\<lparr>files := (with_chunks L tbl rs
           ((files w)(SQL_PATH \<mapsto> dump_text L (conn w), schema_path \<mapsto> schema_text)))
           (D1_SQL_PATH \<mapsto> concat (filter_dump (read_lines False [] (dump_text L (conn w))))),
        stdout := stdout w @ dump_messages @ map chunk_message rs @ [last_message]\<rparr>)"
proof -
  define f where
    "f = (files w)(SQL_PATH \<mapsto> dump_text L (conn w), schema_path \<mapsto> schema_text)"
  define w2 where "w2 = w\<lparr>files := f, stdout := stdout w @ dump_messages\<rparr>"
  define w3 where "w3 = w2\<lparr>files := with_chunks L tbl rs (files w2),
              stdout := stdout w2 @ map chunk_message rs\<rparr>"
  have 0: "export_phase L E rs w =
     seq (for_each (write_chunk L E) rs) (seq (write_filtered_dump E) (say last_message)) w2"
    unfolding w2_def f_def by (rule export_phase_chunks [OF assms(1,2)])
  have "db w2 = Some tbl" using assms(3) by (simp add: w2_def)
  from for_each_write_chunk_ok [OF this assms(4), of L]
  have 1: "for_each (write_chunk L E) rs w2 = (None, w3)"
    by (simp add: w3_def)
  have "with_chunks L tbl rs f SQL_PATH = f SQL_PATH"
    by (rule with_chunks_other) (simp add: paths_differ)
  then have "files w3 SQL_PATH = Some (dump_text L (conn w))"
    using paths_differ(3) by (simp add: w3_def w2_def f_def)
  from write_filtered_dump_eq [OF this assms(5)]
  have 2: "write_filtered_dump E w3 =
     (None, w3\<lparr>files := (files w3)(D1_SQL_PATH \<mapsto>
        concat (filter_dump (read_lines False [] (dump_text L (conn w)))))\<rparr>)" .
  have "export_phase L E rs w =
     say last_message (w3\<lparr>files := (files w3)(D1_SQL_PATH \<mapsto>
        concat (filter_dump (read_lines False [] (dump_text L (conn w)))))\<rparr>)"
    by (simp add: 0 seq_def 1 2)
  then show ?thesis
    by (simp add: say_def w3_def w2_def f_def)
qed

lemma for_each_fetch_effects:
  assumes "for_each (fetch_and_store L E) rs w = (x, w')"
  shows "files w' = files w \<and> db w' = db w \<and> stdout w' = stdout w"
  using assms
proof (induction rs arbitrary: w)
  case Nil
  then show ?case by simp
next
  case (Cons r rs)
  obtain y w1 where f: "fetch_and_store L E r w = (y, w1)"
    by (cases "fetch_and_store L E r w")
  from fetch_and_store_effects [OF f]
  have e: "files w1 = files w" "db w1 = db w" "stdout w1 = stdout w" by auto
  show ?case
  proof (cases y)
    case None
    with f Cons.prems have "for_each (fetch_and_store L E) rs w1 = (x, w')"
      by (simp add: seq_def)
    from Cons.IH [OF this] e show ?thesis by simp
  next
    case (Some err)
    with f Cons.prems have "w' = w1" by (simp add: seq_def)
    with e show ?thesis by simp
  qed
qed

lemma import_phase_effects:
  assumes "import_phase L E rs w = (None, w1)"
  shows "files w1 = files w \<and> stdout w1 = stdout w \<and> db w1 = Some (conn w1)"
proof -
  from assms obtain v where
    v: "for_each (fetch_and_store L E) rs (w\<lparr>db := Some [], conn := []\<rparr>) = (None, v)"
    and w1: "w1 = v\<lparr>db := Some (conn v)\<rparr>"
    by (auto simp: import_phase_None)
  from for_each_fetch_effects [OF v] w1 show ?thesis by simp
qed

lemma run_export:
  assumes "writable E D1_DIR" and "import_phase L E rs w = (None, w1)"
  shows "run L E rs w = export_phase L E rs w1"
  using assms by (simp add: run_def seq_def makedirs_def)

lemma run_None_files:
  assumes "run L E rs w = (None, w')"
  shows "\<exists>tbl. db w' = Some tbl \<and> conn w' = tbl \<and>
     files w' = (with_chunks L tbl rs
           ((files w)(SQL_PATH \<mapsto> dump_text L tbl, schema_path \<mapsto> schema_text)))
           (D1_SQL_PATH \<mapsto> concat (filter_dump (read_lines False [] (dump_text L tbl)))) \<and>
     stdout w' = stdout w @ dump_messages @ map chunk_message rs @ [last_message]"
proof -
  from run_None_writable [OF assms]
  have wr: "writable E D1_DIR" "writable E SQL_PATH" "writable E schema_path"
    "\<forall>p \<in> set rs. writable E (chunk_path p)" "writable E D1_SQL_PATH"
    by (simp_all add: schema_path_def chunk_path_def)
  from assms obtain w1 where i: "import_phase L E rs w = (None, w1)"
    by (auto simp: run_def seq_None makedirs_def split: if_splits)
  from import_phase_effects [OF i]
  have e: "files w1 = files w" "stdout w1 = stdout w" "db w1 = Some (conn w1)" by auto
  from run_export [OF wr(1) i] assms have "export_phase L E rs w1 = (None, w')" by simp
  with export_ok [OF wr(2,3) e(3) wr(4,5), of L] e show ?thesis by auto
qed

subsection \<open>A missing id\<close>

lemma executemany_fail:
  assumes "list_all2 (\<lambda>t r. stored_row L t = Inr r) ts rs" and "stored_row L t = Inl e"
  shows "executemany L (ts @ t # ts') tbl = (Some e, fold upsert rs tbl)"
  using assms(1)
proof (induction ts rs arbitrary: tbl rule: list_all2_induct)
  case Nil
  show ?case using assms(2) by (simp add: insert_or_replace_def)
next
  case (Cons a ts r rs)
  then show ?case by (simp add: insert_or_replace_def)
qed

lemma row_tuple_objs:
  assumes "\<forall>obj \<in> set objs. \<exists>kv. obj = JObj kv"
  shows "\<exists>ts. list_all2 (\<lambda>obj t. row_tuple L res obj = Inr t) objs ts"
  using assms
proof (induction objs)
  case Nil
  show ?case by simp
next
  case (Cons obj objs)
  then obtain ts where ts: "list_all2 (\<lambda>obj t. row_tuple L res obj = Inr t) objs ts"
    by auto
  from Cons.prems obtain kv where "obj = JObj kv" by auto
  then obtain t where "row_tuple L res obj = Inr t"
    by (auto simp: row_tuple_def)
  with ts have "list_all2 (\<lambda>obj t. row_tuple L res obj = Inr t) (obj # objs) (t # ts)"
    by simp
  then show ?case by blast
qed

lemma fetch_and_store_missing_id:
  assumes id: "map_of kvs ''id'' = None"
    and j: "http E (snapshot_url res) = Json j"
    and data: "subscript j ''data'' = Inr (JArr (before @ JObj kvs # after))"
    and before: "list_all2 (\<lambda>obj r. object_row L res obj = Inr r) before stored"
    and after: "\<forall>obj \<in> set after. \<exists>kv. obj = JObj kv"
    and bind: "\<exists>v. bind_param (case map_of kvs ''updated'' of None \<Rightarrow> JStr [] | Some u \<Rightarrow> u) = Inr v"
  shows "fetch_and_store L E res w =
     (Some IntegrityError,
      w\<lparr>requests := requests w @ [snapshot_url res], conn := fold upsert stored (conn w)\<rparr>)"
proof -
  from before obtain ts1 where
    ts1: "list_all2 (\<lambda>obj t. row_tuple L res obj = Inr t) before ts1"
      "list_all2 (\<lambda>t r. stored_row L t = Inr r) ts1 stored"
    using list_all2_split_rows by blast
  obtain t0 where t0: "row_tuple L res (JObj kvs) = Inr t0"
    by (auto simp: row_tuple_def)
  from object_row_missing_id [OF id, of L res] bind
  have "object_row L res (JObj kvs) = Inl IntegrityError" by blast
  with t0 have s0: "stored_row L t0 = Inl IntegrityError"
    by (simp add: object_row_def)
  from row_tuple_objs [OF after, of L res] obtain ts2 where
    ts2: "list_all2 (\<lambda>obj t. row_tuple L res obj = Inr t) after ts2"
    by blast
  from t0 ts2 have "list_all2 (\<lambda>obj t. row_tuple L res obj = Inr t) (JObj kvs # after) (t0 # ts2)"
    by simp
  with ts1(1) have "list_all2 (\<lambda>obj t. row_tuple L res obj = Inr t)
      (before @ JObj kvs # after) (ts1 @ t0 # ts2)"
    by (rule list_all2_appendI)
  then have b: "build_rows L res (before @ JObj kvs # after) = Inr (ts1 @ t0 # ts2)"
    by (simp add: build_rows_Inr)
  have x: "executemany L (ts1 @ t0 # ts2) (conn w) = (Some IntegrityError, fold upsert stored (conn w))"
    using ts1(2) s0 by (rule executemany_fail)
  show ?thesis
    by (simp add: fetch_and_store_def Let_def j data b x)
qed

lemma for_each_fetch_not_null:
  assumes "for_each (fetch_and_store L E) rs w = (x, w')" and "\<forall>r \<in> set (conn w). obj_id r \<noteq> Null"
  shows "\<forall>r \<in> set (conn w'). obj_id r \<noteq> Null"
  using assms
proof (induction rs arbitrary: w)
  case Nil
  then show ?case by simp
next
  case (Cons a rs)
  obtain y w1 where f: "fetch_and_store L E a w = (y, w1)"
    by (cases "fetch_and_store L E a w")
  from fetch_and_store_not_null [OF f Cons.prems(2)]
  have n: "\<forall>r \<in> set (conn w1). obj_id r \<noteq> Null" .
  show ?case
  proof (cases y)
    case None
    with f Cons.prems(1) have "for_each (fetch_and_store L E) rs w1 = (x, w')"
      by (simp add: seq_def)
    from Cons.IH [OF this n] show ?thesis .
  next
    case (Some e)
    with f Cons.prems(1) have "w' = w1" by (simp add: seq_def)
    with n show ?thesis by simp
  qed
qed

lemma import_phase_not_null:
  assumes "import_phase L E rs w = (x, w')" and "writable E DB_PATH"
  shows "\<exists>tbl. db w' = Some tbl \<and> (\<forall>r \<in> set tbl. obj_id r \<noteq> Null)"
proof -
  let ?w0 = "w\<lparr>db := Some [], conn := []\<rparr>"
  obtain y v where v: "for_each (fetch_and_store L E) rs ?w0 = (y, v)"
    by (cases "for_each (fetch_and_store L E) rs ?w0")
  from for_each_fetch_effects [OF v] have d: "db v = Some []" by simp
  have "\<forall>r \<in> set (conn ?w0). obj_id r \<noteq> Null" by simp
  from for_each_fetch_not_null [OF v this] have n: "\<forall>r \<in> set (conn v). obj_id r \<noteq> Null" .
  show ?thesis
  proof (cases y)
    case None
    with v assms have "w' = v\<lparr>db := Some (conn v)\<rparr>"
      by (simp add: import_phase_def seq_def init_db_def commit_def)
    with n show ?thesis by simp
  next
    case (Some e)
    with v assms have "w' = v"
      by (simp add: import_phase_def seq_def init_db_def)
    with d show ?thesis by simp
  qed
qed

lemma run_not_null:
  assumes "run L E rs w = (x, w')" and "writable E D1_DIR" and "writable E DB_PATH"
  shows "\<exists>tbl. db w' = Some tbl \<and> (\<forall>r \<in> set tbl. obj_id r \<noteq> Null)"
proof -
  obtain y w1 where i: "import_phase L E rs w = (y, w1)"
    by (cases "import_phase L E rs w")
  from import_phase_not_null [OF i assms(3)]
  have n: "\<exists>tbl. db w1 = Some tbl \<and> (\<forall>r \<in> set tbl. obj_id r \<noteq> Null)" .
  show ?thesis
  proof (cases y)
    case None
    with i assms(1,2) have "export_phase L E rs w1 = (x, w')"
      by (simp add: run_def seq_def makedirs_def)
    from export_phase_db [OF this] n show ?thesis by simp
  next
    case (Some e)
    with i assms(1,2) have "w' = w1"
      by (simp add: run_def seq_def makedirs_def)
    with n show ?thesis by simp
  qed
qed

lemma noid_fetch_ok:
  "\<forall>p \<in> set [''org'', ''campus'']. fst (fetch_and_store sample_lib noid_env p empty_world) = None"
  by (simp add: fetch_and_store_def noid_env_def sample_lib_def empty_world_def Let_def
      snapshot_url_def CDN_BASE_def)

text \<open>
  C9, as stated, fails: an array with an element that lacks \<open>id\<close> need not end in a
  constraint error. For \<open>[{"name":"x"}, "str"]\<close> the list comprehension of lines 62 to
  70 raises \<open>AttributeError\<close> at the second element, before any row is upserted; the
  table is untouched and the run ends with status 1.
\<close>

theorem missing_id_other_error:
  "http attr_env (snapshot_url ''fac'') = Json (JObj [(''data'', JArr attr_objs)]) \<and>
   attr_objs = [JObj [(''name'', JStr ''x'')], JStr ''str''] \<and>
   map_of [(''name'', JStr ''x'')] ''id'' = None \<and>
   fetch_and_store sample_lib attr_env ''fac'' empty_world =
     (Some AttributeError, empty_world\<lparr>requests := [snapshot_url ''fac'']\<rparr>) \<and>
   fst (run sample_lib attr_env RESOURCES empty_world) = Some AttributeError \<and>
   fst (main sample_lib attr_env empty_world) = 1"
proof -
  have a: "http attr_env (snapshot_url ''fac'') = Json (JObj [(''data'', JArr attr_objs)])"
    by (simp add: attr_env_def)
  have b: "fetch_and_store sample_lib attr_env ''fac'' empty_world =
     (Some AttributeError, empty_world\<lparr>requests := [snapshot_url ''fac'']\<rparr>)"
    by (simp add: fetch_and_store_def attr_env_def attr_objs_def empty_world_def Let_def
        row_tuple_def)
  have c: "fst (run sample_lib attr_env RESOURCES empty_world) = Some AttributeError"
    by (simp add: run_def makedirs_def import_phase_def seq_def init_db_def RESOURCES_def
        fetch_and_store_def attr_env_def attr_objs_def empty_world_def Let_def row_tuple_def
        snapshot_url_def CDN_BASE_def sample_lib_def)
  then have d: "fst (main sample_lib attr_env empty_world) = 1"
    by (simp add: main_exit)
  from a b c d show ?thesis by (simp add: attr_objs_def)
qed

text \<open>
  C9, amended. An element of \<open>data\<close> without the key \<open>id\<close>: \<open>obj.get("id")\<close> is
  \<open>None\<close>, which is bound as NULL, and the column \<open>obj_id INTEGER NOT NULL\<close>
  rejects NULL with a constraint error; the element's row is never produced (the error
  is the constraint error whenever its \<open>updated\<close> value can be bound at all). A
  \<open>data\<close> array that contains such an element makes \<open>fetch_and_store\<close> fail,
  the run fail and the process exit with status 1. The error is the constraint error,
  raised with the rows of the earlier elements upserted and not committed, when the
  elements before the first one without \<open>id\<close> are stored without error, the elements
  after it are objects and its \<open>updated\<close> value can be bound; the run then ends with
  that error, an empty committed table and no file written. No call leaves a row with a
  NULL \<open>obj_id\<close> in the table, and no run leaves one in the committed table.
\<close>

theorem missing_id_aborts:
  assumes "map_of kvs ''id'' = None"
  shows "dict_get (JObj kvs) ''id'' JNull = Inr JNull \<and>
    bind_param JNull = Inr Null \<and>
    integer_column L Null = Inl IntegrityError \<and>
    (\<exists>e. object_row L res (JObj kvs) = Inl e \<and>
       ((\<exists>v. bind_param (case map_of kvs ''updated'' of None \<Rightarrow> JStr [] | Some u \<Rightarrow> u) = Inr v) \<longrightarrow>
          e = IntegrityError)) \<and>
    (http E (snapshot_url res) = Json j \<and> subscript j ''data'' = Inr (JArr objs) \<and>
     JObj kvs \<in> set objs \<longrightarrow>
       (\<exists>e w'. fetch_and_store L E res w = (Some e, w')) \<and>
       (res \<in> set rs \<longrightarrow> (\<exists>e w'. run L E rs w = (Some e, w'))) \<and>
       (res \<in> set RESOURCES \<longrightarrow> fst (main L E w) = 1)) \<and>
    (http E (snapshot_url res) = Json j \<and>
     subscript j ''data'' = Inr (JArr (before @ JObj kvs # after)) \<and>
     list_all2 (\<lambda>obj r. object_row L res obj = Inr r) before stored \<and>
     (\<forall>obj \<in> set after. \<exists>kv. obj = JObj kv) \<and>
     (\<exists>v. bind_param (case map_of kvs ''updated'' of None \<Rightarrow> JStr [] | Some u \<Rightarrow> u) = Inr v) \<longrightarrow>
       fetch_and_store L E res w =
         (Some IntegrityError,
          w\<lparr>requests := requests w @ [snapshot_url res], conn := fold upsert stored (conn w)\<rparr>) \<and>
       (writable E D1_DIR \<and> writable E DB_PATH \<and>
        (\<forall>p \<in> set pre. fst (fetch_and_store L E p w) = None) \<longrightarrow>
          (\<exists>w'. run L E (pre @ res # post) w = (Some IntegrityError, w') \<and>
             db w' = Some [] \<and> files w' = files w \<and>
             requests w' = requests w @ map snapshot_url (pre @ [res])))) \<and>
    (fetch_and_store L E res w = (x, w1) \<and> (\<forall>r \<in> set (conn w). obj_id r \<noteq> Null) \<longrightarrow>
       (\<forall>r \<in> set (conn w1). obj_id r \<noteq> Null)) \<and>
    (run L E rs w = (y, w2) \<and> writable E D1_DIR \<and> writable E DB_PATH \<longrightarrow>
       (\<exists>tbl. db w2 = Some tbl \<and> (\<forall>r \<in> set tbl. obj_id r \<noteq> Null)))"
proof -
  have a: "dict_get (JObj kvs) ''id'' JNull = Inr JNull"
    using assms by simp
  have b: "bind_param JNull = Inr Null \<and> integer_column L Null = Inl IntegrityError"
    by simp
  note c = object_row_missing_id [OF assms, of L res]
  have d: "http E (snapshot_url res) = Json j \<and> subscript j ''data'' = Inr (JArr objs) \<and>
     JObj kvs \<in> set objs \<longrightarrow>
       (\<exists>e w'. fetch_and_store L E res w = (Some e, w')) \<and>
       (res \<in> set rs \<longrightarrow> (\<exists>e w'. run L E rs w = (Some e, w'))) \<and>
       (res \<in> set RESOURCES \<longrightarrow> fst (main L E w) = 1)"
  proof (intro impI, elim conjE)
    assume j: "http E (snapshot_url res) = Json j"
      and data: "subscript j ''data'' = Inr (JArr objs)"
      and mem: "JObj kvs \<in> set objs"
    have fail: "fst (fetch_and_store L E res v) \<noteq> None" for v
    proof
      assume "fst (fetch_and_store L E res v) = None"
      then have "fetch_and_store L E res v = (None, snd (fetch_and_store L E res v))"
        by (simp add: prod_eq_iff)
      with j data obtain rs' where "list_all2 (\<lambda>obj r. object_row L res obj = Inr r) objs rs'"
        by (auto simp: fetch_and_store_None)
      with mem obtain r where "object_row L res (JObj kvs) = Inr r"
        by (auto simp: list_all2_conv_all_nth in_set_conv_nth)
      with c show False by auto
    qed
    have d1: "\<exists>e w'. fetch_and_store L E res w = (Some e, w')"
      using fail [of w] by (cases "fetch_and_store L E res w") auto
    have d2: "res \<in> set rs \<longrightarrow> (\<exists>e w'. run L E rs w = (Some e, w'))" for rs
    proof
      assume r: "res \<in> set rs"
      obtain y w' where y: "run L E rs w = (y, w')" by (cases "run L E rs w")
      have "y \<noteq> None"
      proof
        assume "y = None"
        with y r have "fst (fetch_and_store L E res w) = None"
          using run_None_fetch by blast
        with fail show False by blast
      qed
      with y show "\<exists>e w'. run L E rs w = (Some e, w')" by auto
    qed
    have d3: "res \<in> set RESOURCES \<longrightarrow> fst (main L E w) = 1"
      using d2 [of RESOURCES] by (auto simp: main_exit)
    from d1 d2 d3 show "(\<exists>e w'. fetch_and_store L E res w = (Some e, w')) \<and>
       (res \<in> set rs \<longrightarrow> (\<exists>e w'. run L E rs w = (Some e, w'))) \<and>
       (res \<in> set RESOURCES \<longrightarrow> fst (main L E w) = 1)" by blast
  qed
  have e: "http E (snapshot_url res) = Json j \<and>
     subscript j ''data'' = Inr (JArr (before @ JObj kvs # after)) \<and>
     list_all2 (\<lambda>obj r. object_row L res obj = Inr r) before stored \<and>
     (\<forall>obj \<in> set after. \<exists>kv. obj = JObj kv) \<and>
     (\<exists>v. bind_param (case map_of kvs ''updated'' of None \<Rightarrow> JStr [] | Some u \<Rightarrow> u) = Inr v) \<longrightarrow>
       fetch_and_store L E res w =
         (Some IntegrityError,
          w\<lparr>requests := requests w @ [snapshot_url res], conn := fold upsert stored (conn w)\<rparr>) \<and>
       (writable E D1_DIR \<and> writable E DB_PATH \<and>
        (\<forall>p \<in> set pre. fst (fetch_and_store L E p w) = None) \<longrightarrow>
          (\<exists>w'. run L E (pre @ res # post) w = (Some IntegrityError, w') \<and>
             db w' = Some [] \<and> files w' = files w \<and>
             requests w' = requests w @ map snapshot_url (pre @ [res])))"
  proof (intro impI, elim conjE)
    assume j: "http E (snapshot_url res) = Json j"
      and data: "subscript j ''data'' = Inr (JArr (before @ JObj kvs # after))"
      and before: "list_all2 (\<lambda>obj r. object_row L res obj = Inr r) before stored"
      and after: "\<forall>obj \<in> set after. \<exists>kv. obj = JObj kv"
      and bind: "\<exists>v. bind_param (case map_of kvs ''updated'' of None \<Rightarrow> JStr [] | Some u \<Rightarrow> u) = Inr v"
    note f = fetch_and_store_missing_id [OF assms j data before after bind]
    have e1: "fetch_and_store L E res w =
         (Some IntegrityError,
          w\<lparr>requests := requests w @ [snapshot_url res], conn := fold upsert stored (conn w)\<rparr>)"
      by (rule f)
    have e2: "writable E D1_DIR \<and> writable E DB_PATH \<and>
        (\<forall>p \<in> set pre. fst (fetch_and_store L E p w) = None) \<longrightarrow>
          (\<exists>w'. run L E (pre @ res # post) w = (Some IntegrityError, w') \<and>
             db w' = Some [] \<and> files w' = files w \<and>
             requests w' = requests w @ map snapshot_url (pre @ [res]))"
    proof (intro impI, elim conjE)
      assume wr: "writable E D1_DIR" "writable E DB_PATH"
        and pre: "\<forall>p \<in> set pre. fst (fetch_and_store L E p w) = None"
      have "fst (fetch_and_store L E res w) = Some IntegrityError"
        by (simp add: e1)
      from run_import_fail [OF wr pre this, of post w]
      show "\<exists>w'. run L E (pre @ res # post) w = (Some IntegrityError, w') \<and>
             db w' = Some [] \<and> files w' = files w \<and>
             requests w' = requests w @ map snapshot_url (pre @ [res])"
        by blast
    qed
    from e1 e2 show "fetch_and_store L E res w =
         (Some IntegrityError,
          w\<lparr>requests := requests w @ [snapshot_url res], conn := fold upsert stored (conn w)\<rparr>) \<and>
       (writable E D1_DIR \<and> writable E DB_PATH \<and>
        (\<forall>p \<in> set pre. fst (fetch_and_store L E p w) = None) \<longrightarrow>
          (\<exists>w'. run L E (pre @ res # post) w = (Some IntegrityError, w') \<and>
             db w' = Some [] \<and> files w' = files w \<and>
             requests w' = requests w @ map snapshot_url (pre @ [res])))"
      by blast
  qed
  have g: "fetch_and_store L E res w = (x, w1) \<and> (\<forall>r \<in> set (conn w). obj_id r \<noteq> Null) \<longrightarrow>
       (\<forall>r \<in> set (conn w1). obj_id r \<noteq> Null)"
    using fetch_and_store_not_null by blast
  have h: "run L E rs w = (y, w2) \<and> writable E D1_DIR \<and> writable E DB_PATH \<longrightarrow>
       (\<exists>tbl. db w2 = Some tbl \<and> (\<forall>r \<in> set tbl. obj_id r \<noteq> Null))"
    using run_not_null by blast
  from a b c d e g h show ?thesis by blast
qed

theorem missing_id_aborts_witness:
  "map_of [(''name'', JStr ''x'')] ''id'' = None \<and>
   object_row sample_lib ''fac'' (JObj [(''name'', JStr ''x'')]) = Inl IntegrityError \<and>
   http noid_env (snapshot_url ''fac'') = Json (JObj [(''data'', JArr noid_objs)]) \<and>
   noid_objs = [JObj [(''id'', JInt 1)]] @ JObj [(''name'', JStr ''x'')] # [] \<and>
   object_row sample_lib ''fac'' (JObj [(''id'', JInt 1)]) =
     Inr \<lparr>resource = ''fac'', obj_id = Integer 1, updated = [],
          payload = dumps_compact (JObj [(''id'', JInt 1)])\<rparr> \<and>
   fetch_and_store sample_lib noid_env ''fac'' empty_world =
     (Some IntegrityError,
      empty_world\<lparr>requests := [snapshot_url ''fac''],
        conn := [\<lparr>resource = ''fac'', obj_id = Integer 1, updated = [],
          payload = dumps_compact (JObj [(''id'', JInt 1)])\<rparr>]\<rparr>) \<and>
   writable noid_env D1_DIR \<and> writable noid_env DB_PATH \<and>
   RESOURCES = [''org'', ''campus''] @ ''fac'' # drop 3 RESOURCES \<and>
   (\<exists>w'. run sample_lib noid_env RESOURCES empty_world = (Some IntegrityError, w') \<and>
      db w' = Some [] \<and> files w' = files empty_world \<and>
      requests w' = map snapshot_url [''org'', ''campus'', ''fac'']) \<and>
   ''fac'' \<in> set RESOURCES \<and>
   fst (main sample_lib noid_env empty_world) = 1"
proof -
  let ?kvs = "[(''name'', JStr ''x'')]"
  let ?r = "\<lparr>resource = ''fac'', obj_id = Integer 1, updated = [],
          payload = dumps_compact (JObj [(''id'', JInt 1)])\<rparr>"
  have h: "map_of ?kvs ''id'' = None" by simp
  have resp: "http noid_env (snapshot_url ''fac'') = Json (JObj [(''data'', JArr noid_objs)])"
    by (simp add: noid_env_def)
  have objs: "noid_objs = [JObj [(''id'', JInt 1)]] @ JObj ?kvs # []"
    by (simp add: noid_objs_def)
  have data: "subscript (JObj [(''data'', JArr noid_objs)]) ''data'' =
      Inr (JArr ([JObj [(''id'', JInt 1)]] @ JObj ?kvs # []))"
    by (simp add: noid_objs_def)
  have data': "subscript (JObj [(''data'', JArr noid_objs)]) ''data'' = Inr (JArr noid_objs)"
    by simp
  have mem: "JObj ?kvs \<in> set noid_objs"
    by (simp add: noid_objs_def)
  have row: "object_row sample_lib ''fac'' (JObj [(''id'', JInt 1)]) = Inr ?r"
    by (simp add: object_row_def row_tuple_def stored_row_def sample_lib_def)
  then have before: "list_all2 (\<lambda>obj r. object_row sample_lib ''fac'' obj = Inr r)
      [JObj [(''id'', JInt 1)]] [?r]"
    by simp
  have after: "\<forall>obj \<in> set []. \<exists>kv. obj = JObj kv"
    by simp
  have fac: "''fac'' \<in> set RESOURCES"
    by (simp add: RESOURCES_def)
  have rs: "RESOURCES = [''org'', ''campus''] @ ''fac'' # drop 3 RESOURCES"
    by (simp add: RESOURCES_def)
  have wr: "writable noid_env D1_DIR \<and> writable noid_env DB_PATH"
    by (simp add: noid_env_def)
  have bind: "\<exists>v. bind_param (case map_of ?kvs ''updated'' of None \<Rightarrow> JStr [] | Some u \<Rightarrow> u) = Inr v"
    by simp
  note inst = missing_id_aborts [OF h, of sample_lib "''fac''" noid_env
      "JObj [(''data'', JArr noid_objs)]" noid_objs empty_world RESOURCES
      "[JObj [(''id'', JInt 1)]]" "[]" "[?r]" "[''org'', ''campus'']" "drop 3 RESOURCES"]
  from inst bind have a: "object_row sample_lib ''fac'' (JObj ?kvs) = Inl IntegrityError"
    by blast
  from inst resp data' mem fac have b: "fst (main sample_lib noid_env empty_world) = 1"
    by blast
  from inst resp data before after bind
  have c0: "fetch_and_store sample_lib noid_env ''fac'' empty_world =
     (Some IntegrityError,
      empty_world\<lparr>requests := requests empty_world @ [snapshot_url ''fac''],
        conn := fold upsert [?r] (conn empty_world)\<rparr>)"
    by blast
  then have c: "fetch_and_store sample_lib noid_env ''fac'' empty_world =
     (Some IntegrityError, empty_world\<lparr>requests := [snapshot_url ''fac''], conn := [?r]\<rparr>)"
    by (simp add: empty_world_def upsert_def)
  from inst resp data before after bind wr noid_fetch_ok
  have "\<exists>w'. run sample_lib noid_env ([''org'', ''campus''] @ ''fac'' # drop 3 RESOURCES) empty_world =
        (Some IntegrityError, w') \<and>
      db w' = Some [] \<and> files w' = files empty_world \<and>
      requests w' = requests empty_world @ map snapshot_url ([''org'', ''campus''] @ [''fac''])"
    by blast
  then have d: "\<exists>w'. run sample_lib noid_env RESOURCES empty_world = (Some IntegrityError, w') \<and>
      db w' = Some [] \<and> files w' = files empty_world \<and>
      requests w' = map snapshot_url [''org'', ''campus'', ''fac'']"
    unfolding rs [symmetric] by (simp add: empty_world_def)
  from h a resp objs row c wr rs d fac b show ?thesis by blast
qed

subsection \<open>Failures end the run\<close>

lemma run_makedirs_fail:
  assumes "\<not> writable E D1_DIR"
  shows "run L E rs w = (Some OSError, w)"
  using assms by (simp add: run_def seq_def makedirs_def)

lemma run_connect_fail:
  assumes "writable E D1_DIR" and "\<not> writable E DB_PATH"
  shows "run L E rs w = (Some OperationalError, w)"
  using assms by (simp add: run_def seq_def makedirs_def import_phase_def init_db_def)

lemma import_phase_db:
  assumes "import_phase L E rs w = (None, w1)"
  shows "db w1 = Some (conn w1)"
  using import_phase_effects [OF assms] by simp

text \<open>
  C8. Nothing catches an error. An unreachable host, a body that is not JSON, a missing
  \<open>data\<close> key and an error of the store each make \<open>fetch_and_store\<close> fail.
  When the resources before \<open>r\<close> import and \<open>r\<close> fails with \<open>e\<close>, the
  run ends with \<open>e\<close>: the requests made are those of the resources up to \<open>r\<close>
  and no later one, one progress line was written per earlier resource, no file was
  written and the committed table is the empty one. A directory or a database file that
  cannot be written ends the run before anything happens. After the import the run is
  the export, which ends at the first file it cannot write, with what it wrote before
  left in place and nothing after it written or printed: nothing for the full dump; the
  full dump for the schema file; the full dump, the schema file and the chunk files of
  the earlier resources for a chunk file (no later chunk file, no filtered dump); all
  but the filtered dump for the filtered dump. A run ends without error only if every
  resource imported and every path was writable. Whatever the outcome, no file of the
  world is removed and no request or output line is taken back. The exit status is 0
  exactly when the run raised nothing, and 1 otherwise.
\<close>

theorem failure_aborts_run:
  "(http E (snapshot_url r) = Unreachable \<longrightarrow> fst (fetch_and_store L E r v) = Some URLError) \<and>
   (http E (snapshot_url r) = NotJson \<longrightarrow> fst (fetch_and_store L E r v) = Some JSONDecodeError) \<and>
   (http E (snapshot_url r) = Json (JObj kvs) \<and> map_of kvs ''data'' = None \<longrightarrow>
      fst (fetch_and_store L E r v) = Some KeyError) \<and>
   (http E (snapshot_url r) = Json j \<and> subscript j ''data'' = Inr (JArr objs) \<and>
    build_rows L r objs = Inr ts \<and> fst (executemany L ts (conn v)) = Some e' \<longrightarrow>
      fst (fetch_and_store L E r v) = Some e') \<and>
   (writable E D1_DIR \<and> writable E DB_PATH \<and>
    (\<forall>p \<in> set pre. fst (fetch_and_store L E p v) = None) \<and>
    fst (fetch_and_store L E r v) = Some e \<longrightarrow>
      (\<exists>w'. run L E (pre @ r # post) w = (Some e, w') \<and>
         requests w' = requests w @ map snapshot_url (pre @ [r]) \<and> files w' = files w \<and>
         db w' = Some [] \<and> stdout w' = stdout w \<and>
         length (stderr w') = length (stderr w) + length pre)) \<and>
   (\<not> writable E D1_DIR \<longrightarrow> run L E rs w = (Some OSError, w)) \<and>
   (writable E D1_DIR \<and> \<not> writable E DB_PATH \<longrightarrow> run L E rs w = (Some OperationalError, w)) \<and>
   (writable E D1_DIR \<and> import_phase L E rs w = (None, w3) \<longrightarrow>
      run L E rs w = export_phase L E rs w3 \<and> db w3 = Some (conn w3)) \<and>
   (\<not> writable E SQL_PATH \<longrightarrow> export_phase L E rs w = (Some OSError, w)) \<and>
   (writable E SQL_PATH \<and> \<not> writable E schema_path \<longrightarrow>
      export_phase L E rs w =
        (Some OSError, w\<lparr>files := (files w)(SQL_PATH \<mapsto> dump_text L (conn w)),
           stdout := stdout w @ take 1 dump_messages\<rparr>)) \<and>
   (writable E SQL_PATH \<and> writable E schema_path \<and> db w = Some tbl \<and>
    (\<forall>p \<in> set written. writable E (chunk_path p)) \<and> \<not> writable E (chunk_path q) \<longrightarrow>
      export_phase L E (written @ q # rest) w =
        (Some OSError,
         w\<lparr>files := with_chunks L tbl written
              ((files w)(SQL_PATH \<mapsto> dump_text L (conn w), schema_path \<mapsto> schema_text)),
           stdout := stdout w @ dump_messages @ map chunk_message written\<rparr>)) \<and>
   (writable E SQL_PATH \<and> writable E schema_path \<and> db w = Some tbl \<and>
    (\<forall>p \<in> set rs. writable E (chunk_path p)) \<and> \<not> writable E D1_SQL_PATH \<longrightarrow>
      export_phase L E rs w =
        (Some OSError,
         w\<lparr>files := with_chunks L tbl rs
              ((files w)(SQL_PATH \<mapsto> dump_text L (conn w), schema_path \<mapsto> schema_text)),
           stdout := stdout w @ dump_messages @ map chunk_message rs\<rparr>)) \<and>
   (run L E rs w = (None, w1) \<longrightarrow>
      writable E D1_DIR \<and> writable E DB_PATH \<and>
      (\<forall>p \<in> set rs. fst (fetch_and_store L E p v) = None) \<and>
      writable E SQL_PATH \<and> writable E (path_join D1_DIR ''00_schema.sql'') \<and>
      (\<forall>p \<in> set rs. writable E (path_join D1_DIR (p @ ''.sql''))) \<and> writable E D1_SQL_PATH) \<and>
   (run L E rs w = (x, w2) \<longrightarrow>
      (\<forall>p. files w p \<noteq> None \<longrightarrow> files w2 p \<noteq> None) \<and> prefix (requests w) (requests w2) \<and>
      prefix (stdout w) (stdout w2) \<and> prefix (stderr w) (stderr w2)) \<and>
   fst (main L E w) = (if fst (run L E RESOURCES w) = None then 0 else 1)"
proof -
  note a = fetch_and_store_errors [of E r L v kvs j objs ts e']
  have b: "writable E D1_DIR \<and> writable E DB_PATH \<and>
    (\<forall>p \<in> set pre. fst (fetch_and_store L E p v) = None) \<and>
    fst (fetch_and_store L E r v) = Some e \<longrightarrow>
      (\<exists>w'. run L E (pre @ r # post) w = (Some e, w') \<and>
         requests w' = requests w @ map snapshot_url (pre @ [r]) \<and> files w' = files w \<and>
         db w' = Some [] \<and> stdout w' = stdout w \<and>
         length (stderr w') = length (stderr w) + length pre)"
    using run_import_fail by blast
  have c1: "\<not> writable E D1_DIR \<longrightarrow> run L E rs w = (Some OSError, w)"
    using run_makedirs_fail by blast
  have c2: "writable E D1_DIR \<and> \<not> writable E DB_PATH \<longrightarrow>
      run L E rs w = (Some OperationalError, w)"
    using run_connect_fail by blast
  have c3: "writable E D1_DIR \<and> import_phase L E rs w = (None, w3) \<longrightarrow>
      run L E rs w = export_phase L E rs w3 \<and> db w3 = Some (conn w3)"
    using run_export import_phase_db by blast
  have c4: "\<not> writable E SQL_PATH \<longrightarrow> export_phase L E rs w = (Some OSError, w)"
    using export_dump_fail by blast
  have c5: "writable E SQL_PATH \<and> \<not> writable E schema_path \<longrightarrow>
      export_phase L E rs w =
        (Some OSError, w\<lparr>files := (files w)(SQL_PATH \<mapsto> dump_text L (conn w)),
           stdout := stdout w @ take 1 dump_messages\<rparr>)"
    using export_schema_fail by blast
  have c6: "writable E SQL_PATH \<and> writable E schema_path \<and> db w = Some tbl \<and>
    (\<forall>p \<in> set written. writable E (chunk_path p)) \<and> \<not> writable E (chunk_path q) \<longrightarrow>
      export_phase L E (written @ q # rest) w =
        (Some OSError,
         w\<lparr>files := with_chunks L tbl written
              ((files w)(SQL_PATH \<mapsto> dump_text L (conn w), schema_path \<mapsto> schema_text)),
           stdout := stdout w @ dump_messages @ map chunk_message written\<rparr>)"
    using export_chunk_fail by blast
  have c7: "writable E SQL_PATH \<and> writable E schema_path \<and> db w = Some tbl \<and>
    (\<forall>p \<in> set rs. writable E (chunk_path p)) \<and> \<not> writable E D1_SQL_PATH \<longrightarrow>
      export_phase L E rs w =
        (Some OSError,
         w\<lparr>files := with_chunks L tbl rs
              ((files w)(SQL_PATH \<mapsto> dump_text L (conn w), schema_path \<mapsto> schema_text)),
           stdout := stdout w @ dump_messages @ map chunk_message rs\<rparr>)"
    using export_filtered_fail by blast
  have d: "run L E rs w = (None, w1) \<longrightarrow>
      writable E D1_DIR \<and> writable E DB_PATH \<and>
      (\<forall>p \<in> set rs. fst (fetch_and_store L E p v) = None) \<and>
      writable E SQL_PATH \<and> writable E (path_join D1_DIR ''00_schema.sql'') \<and>
      (\<forall>p \<in> set rs. writable E (path_join D1_DIR (p @ ''.sql''))) \<and> writable E D1_SQL_PATH"
    using run_None_writable [of L E rs w w1] run_None_fetch [of L E rs w w1] by blast
  have e: "run L E rs w = (x, w2) \<longrightarrow>
      (\<forall>p. files w p \<noteq> None \<longrightarrow> files w2 p \<noteq> None) \<and> prefix (requests w) (requests w2) \<and>
      prefix (stdout w) (stdout w2) \<and> prefix (stderr w) (stderr w2)"
    using keeps_run [of L E rs] by (simp add: keeps_def grows_def)
  have f: "fst (main L E w) = (if fst (run L E RESOURCES w) = None then 0 else 1)"
    by (simp add: main_exit split: option.splits)
  from a b c1 c2 c3 c4 c5 c6 c7 d e f show ?thesis by blast
qed

theorem failure_aborts_run_witness:
  "http down_env (snapshot_url ''fac'') = Unreachable \<and>
   fst (fetch_and_store sample_lib down_env ''fac'' empty_world) = Some URLError \<and>
   writable down_env D1_DIR \<and> writable down_env DB_PATH \<and>
   RESOURCES = [''org'', ''campus''] @ ''fac'' # drop 3 RESOURCES \<and>
   (\<exists>w'. run sample_lib down_env RESOURCES empty_world = (Some URLError, w') \<and>
      requests w' = map snapshot_url [''org'', ''campus'', ''fac''] \<and>
      files w' = files empty_world \<and> db w' = Some [] \<and> length (stderr w') = 2) \<and>
   fst (main sample_lib down_env empty_world) = 1 \<and>
   http broken_env (snapshot_url ''org'') = NotJson \<and>
   fst (fetch_and_store sample_lib broken_env ''org'' empty_world) = Some JSONDecodeError \<and>
   http broken_env (snapshot_url ''campus'') = Json (JObj [(''count'', JInt 0)]) \<and>
   fst (fetch_and_store sample_lib broken_env ''campus'' empty_world) = Some KeyError \<and>
   writable broken_env SQL_PATH \<and> \<not> writable broken_env schema_path \<and>
   fst (export_phase sample_lib broken_env RESOURCES empty_world) = Some OSError \<and>
   files (snd (export_phase sample_lib broken_env RESOURCES empty_world)) SQL_PATH =
     Some (dump_text sample_lib []) \<and>
   files (snd (export_phase sample_lib broken_env RESOURCES empty_world)) schema_path = None \<and>
   db stored_world = Some [obrien_row] \<and>
   writable chunk_fail_env SQL_PATH \<and> writable chunk_fail_env schema_path \<and>
   writable chunk_fail_env (chunk_path ''org'') \<and> writable chunk_fail_env (chunk_path ''campus'') \<and>
   \<not> writable chunk_fail_env (chunk_path ''fac'') \<and>
   fst (export_phase sample_lib chunk_fail_env RESOURCES stored_world) = Some OSError \<and>
   files (snd (export_phase sample_lib chunk_fail_env RESOURCES stored_world)) (chunk_path ''campus'') =
     Some (delete_statement ''campus'') \<and>
   files (snd (export_phase sample_lib chunk_fail_env RESOURCES stored_world)) (chunk_path ''fac'') = None \<and>
   files (snd (export_phase sample_lib chunk_fail_env RESOURCES stored_world)) (chunk_path ''net'') = None \<and>
   files (snd (export_phase sample_lib chunk_fail_env RESOURCES stored_world)) D1_SQL_PATH = None \<and>
   stdout (snd (export_phase sample_lib chunk_fail_env RESOURCES stored_world)) =
     dump_messages @ [chunk_message ''org'', chunk_message ''campus''] \<and>
   fst (run sample_lib sample_env RESOURCES stale_world) = None \<and>
   writable sample_env D1_SQL_PATH \<and>
   files (snd (run sample_lib sample_env RESOURCES stale_world)) SQL_PATH \<noteq> None"
proof -
  have u: "http down_env (snapshot_url ''fac'') = Unreachable"
    by (simp add: down_env_def)
  have wr: "writable down_env D1_DIR \<and> writable down_env DB_PATH"
    by (simp add: down_env_def)
  have rs: "RESOURCES = [''org'', ''campus''] @ ''fac'' # drop 3 RESOURCES"
    by (simp add: RESOURCES_def)
  note down = failure_aborts_run [of down_env "''fac''" sample_lib empty_world _ _ _ _ _
      "[''org'', ''campus'']" URLError "drop 3 RESOURCES" empty_world]
  from down u have f: "fst (fetch_and_store sample_lib down_env ''fac'' empty_world) = Some URLError"
    by blast
  from down wr down_fetch_ok f
  have "\<exists>w'. run sample_lib down_env ([''org'', ''campus''] @ ''fac'' # drop 3 RESOURCES) empty_world
        = (Some URLError, w') \<and>
      requests w' = requests empty_world @ map snapshot_url ([''org'', ''campus''] @ [''fac'']) \<and>
      files w' = files empty_world \<and> db w' = Some [] \<and> stdout w' = stdout empty_world \<and>
      length (stderr w') = length (stderr empty_world) + length [''org'', ''campus'']"
    by blast
  then have r: "\<exists>w'. run sample_lib down_env RESOURCES empty_world = (Some URLError, w') \<and>
      requests w' = map snapshot_url [''org'', ''campus'', ''fac''] \<and>
      files w' = files empty_world \<and> db w' = Some [] \<and> length (stderr w') = 2"
    unfolding rs [symmetric] by (auto simp: empty_world_def numeral_2_eq_2)
  then have x: "fst (main sample_lib down_env empty_world) = 1"
    by (auto simp: main_def)
  have n: "http broken_env (snapshot_url ''org'') = NotJson"
    by (simp add: broken_env_def)
  have k: "http broken_env (snapshot_url ''campus'') = Json (JObj [(''count'', JInt 0)])"
    by (simp add: broken_env_def snapshot_url_def)
  have kd: "map_of [(''count'', JInt 0)] ''data'' = None" by simp
  have s: "writable broken_env SQL_PATH \<and> \<not> writable broken_env schema_path"
    by (simp add: broken_env_def SQL_PATH_def path_join_def D1_DIR_def schema_path_def)
  from failure_aborts_run [of broken_env "''org''" sample_lib empty_world] n
  have nj: "fst (fetch_and_store sample_lib broken_env ''org'' empty_world) = Some JSONDecodeError"
    by blast
  note broken = failure_aborts_run [of broken_env "''campus''" sample_lib empty_world
      "[(''count'', JInt 0)]" _ _ _ _ _ _ _ empty_world RESOURCES]
  from broken k kd
  have ke: "fst (fetch_and_store sample_lib broken_env ''campus'' empty_world) = Some KeyError"
    by blast
  from broken s
  have bx: "export_phase sample_lib broken_env RESOURCES empty_world =
        (Some OSError, empty_world\<lparr>files := (files empty_world)(SQL_PATH \<mapsto>
             dump_text sample_lib (conn empty_world)),
           stdout := stdout empty_world @ take 1 dump_messages\<rparr>)"
    by blast
  have ex1: "fst (export_phase sample_lib broken_env RESOURCES empty_world) = Some OSError"
    by (simp add: bx)
  have ex2: "files (snd (export_phase sample_lib broken_env RESOURCES empty_world)) SQL_PATH =
     Some (dump_text sample_lib [])"
    unfolding bx by (simp add: empty_world_def)
  have ex3: "files (snd (export_phase sample_lib broken_env RESOURCES empty_world)) schema_path = None"
    unfolding bx by (simp add: empty_world_def paths_differ)
  have sw: "db stored_world = Some [obrien_row]"
    by (simp add: stored_world_def)
  have cw: "writable chunk_fail_env SQL_PATH \<and> writable chunk_fail_env schema_path \<and>
      writable chunk_fail_env (chunk_path ''org'') \<and> writable chunk_fail_env (chunk_path ''campus'') \<and>
      \<not> writable chunk_fail_env (chunk_path ''fac'')"
    by (simp add: chunk_fail_env_def SQL_PATH_def schema_path_def chunk_path_def path_join_def
        D1_DIR_def)
  then have cw': "\<forall>p \<in> set [''org'', ''campus'']. writable chunk_fail_env (chunk_path p)"
    by simp
  note chunk = failure_aborts_run [of chunk_fail_env _ sample_lib _ _ _ _ _ _ _ _ _ stored_world
      _ _ "[obrien_row]" "[''org'', ''campus'']" "''fac''" "drop 3 RESOURCES"]
  from chunk sw cw cw'
  have "export_phase sample_lib chunk_fail_env ([''org'', ''campus''] @ ''fac'' # drop 3 RESOURCES)
        stored_world =
        (Some OSError,
         stored_world\<lparr>files := with_chunks sample_lib [obrien_row] [''org'', ''campus'']
              ((files stored_world)(SQL_PATH \<mapsto> dump_text sample_lib (conn stored_world),
                 schema_path \<mapsto> schema_text)),
           stdout := stdout stored_world @ dump_messages @
             map chunk_message [''org'', ''campus'']\<rparr>)"
    by blast
  then have cx: "export_phase sample_lib chunk_fail_env RESOURCES stored_world =
        (Some OSError,
         stored_world\<lparr>files := with_chunks sample_lib [obrien_row] [''org'', ''campus'']
              ((files stored_world)(SQL_PATH \<mapsto> dump_text sample_lib (conn stored_world),
                 schema_path \<mapsto> schema_text)),
           stdout := stdout stored_world @ dump_messages @
             map chunk_message [''org'', ''campus'']\<rparr>)"
    unfolding rs [symmetric] .
  have cx1: "fst (export_phase sample_lib chunk_fail_env RESOURCES stored_world) = Some OSError"
    by (simp add: cx)
  have campus: "concat (chunk_writes sample_lib ''campus'' [obrien_row]) = delete_statement ''campus''"
    by (simp add: chunk_writes_eq select_resource_def rows_of_def obrien_row_def sample_lib_def
        sample_scan_def)
  have cx2: "files (snd (export_phase sample_lib chunk_fail_env RESOURCES stored_world))
      (chunk_path ''campus'') = Some (delete_statement ''campus'')"
    by (simp add: cx with_chunks_chunk campus)
  have other: "with_chunks sample_lib [obrien_row] [''org'', ''campus''] g p = g p"
    if "p \<noteq> chunk_path ''org''" "p \<noteq> chunk_path ''campus''" for g p
    using that by (intro with_chunks_other) auto
  have cx3: "files (snd (export_phase sample_lib chunk_fail_env RESOURCES stored_world))
      (chunk_path ''fac'') = None"
    unfolding cx
    by (simp add: other chunk_path_inj paths_differ stored_world_def empty_world_def)
      (simp add: chunk_path_def schema_path_def path_join_def)
  have cx4: "files (snd (export_phase sample_lib chunk_fail_env RESOURCES stored_world))
      (chunk_path ''net'') = None"
    unfolding cx
    by (simp add: other chunk_path_inj paths_differ stored_world_def empty_world_def)
      (simp add: chunk_path_def schema_path_def path_join_def)
  have cx5: "files (snd (export_phase sample_lib chunk_fail_env RESOURCES stored_world))
      D1_SQL_PATH = None"
    unfolding cx
    using paths_differ(2) [of "''org''"] paths_differ(2) [of "''campus''"] paths_differ(4,5)
    by (simp add: other stored_world_def empty_world_def)
  have cx6: "stdout (snd (export_phase sample_lib chunk_fail_env RESOURCES stored_world)) =
     dump_messages @ [chunk_message ''org'', chunk_message ''campus'']"
    unfolding cx by (simp add: stored_world_def empty_world_def)
  have ok: "fst (run sample_lib sample_env RESOURCES stale_world) = None"
    using sample_main_exit by (simp add: main_def split: prod.splits option.splits)
  then have ok': "run sample_lib sample_env RESOURCES stale_world =
      (None, snd (run sample_lib sample_env RESOURCES stale_world))"
    by (simp add: prod_eq_iff)
  note good = failure_aborts_run [of sample_env "[]" sample_lib stale_world "[]" JNull "[]" "[]"
      OSError "[]" OSError "[]" stale_world RESOURCES stale_world "[]" "[]" "[]" "[]"
      "snd (run sample_lib sample_env RESOURCES stale_world)" None stale_world]
  note success = good [THEN conjunct2, THEN conjunct2, THEN conjunct2, THEN conjunct2,
      THEN conjunct2, THEN conjunct2, THEN conjunct2, THEN conjunct2, THEN conjunct2,
      THEN conjunct2, THEN conjunct2, THEN conjunct2, THEN conjunct1]
  from success ok' have d1: "writable sample_env D1_SQL_PATH" by blast
  have fl: "files (snd (run sample_lib sample_env RESOURCES stale_world)) SQL_PATH \<noteq> None"
    using run_None_files [OF ok'] paths_differ(5)
      with_chunks_other [of RESOURCES SQL_PATH] paths_differ(1)
    by auto
  from u f wr rs r x n nj k ke s ex1 ex2 ex3 sw cw cx1 cx2 cx3 cx4 cx5 cx6 ok d1 fl
  show ?thesis by blast
qed

subsection \<open>What a run deletes\<close>

lemma insert_statement_prefix:
  "prefix ''INSERT OR REPLACE INTO objects '' (insert_statement L res r)"
  by (simp add: insert_statement_def Let_def)

lemma run_None_chunk:
  assumes "run L E rs w = (None, w')" and "res \<in> set rs"
  shows "\<exists>tbl. db w' = Some tbl \<and>
     files w' (chunk_path res) = Some (concat (chunk_writes L res tbl))"
proof -
  from run_None_files [OF assms(1)] obtain tbl where
    t: "db w' = Some tbl"
    and f: "files w' = (with_chunks L tbl rs
           ((files w)(SQL_PATH \<mapsto> dump_text L tbl, schema_path \<mapsto> schema_text)))
           (D1_SQL_PATH \<mapsto> concat (filter_dump (read_lines False [] (dump_text L tbl))))"
    by blast
  have "files w' (chunk_path res) = Some (concat (chunk_writes L res tbl))"
    unfolding f using paths_differ(2) [of res] assms(2) by (simp add: with_chunks_chunk)
  with t show ?thesis by blast
qed

text \<open>
  C2, as stated, fails. A store that holds the row \<open>(net, 99)\<close> before the run; the
  run fetches the ids 1 and 2 for \<open>net\<close> and nothing else, ends with status 0, and
  the store after it holds the two fetched rows only: the earlier row, which no fetched
  object superseded, is gone.
\<close>

theorem stale_rows_dropped:
  "db stale_world = Some [stale_row] \<and>
   fst (main sample_lib sample_env stale_world) = 0 \<and>
   db (snd (main sample_lib sample_env stale_world)) = Some sample_rows \<and>
   key stale_row \<notin> key ` set sample_rows \<and>
   stale_row \<notin> set sample_rows"
proof -
  have a: "db stale_world = Some [stale_row]"
    by (simp add: stale_world_def)
  have b: "key stale_row \<notin> key ` set sample_rows"
    by (simp add: stale_row_def sample_rows_def key_def)
  then have c: "stale_row \<notin> set sample_rows" by blast
  from a sample_main_exit sample_main_db b c show ?thesis by blast
qed

text \<open>
  C2, amended. The script empties the store first: after \<open>init_db\<close> the table
  is empty, whatever the file held. From then on nothing deletes a row: a
  \<open>fetch_and_store\<close> that completes keeps every row of the table unless one of the
  fetched objects has its key, the table committed by the import phase holds only rows
  made from the objects fetched in this run, and the export phase changes neither the
  committed table nor the connection's. What the script writes to a chunk file is the
  DELETE statement of the resource and then, for each row the SELECT returns, one text
  that starts with \<open>INSERT OR REPLACE INTO objects\<close>, and nothing else; after a run
  that completes, that is the content of the chunk file of every resource of the run.
\<close>

theorem import_keeps_rows_of_the_run:
  "(init_db E w = (None, w0) \<longrightarrow> db w0 = Some [] \<and> conn w0 = []) \<and>
   (fetch_and_store L E res w = (None, w') \<longrightarrow>
      (\<forall>r \<in> set (conn w). r \<in> set (conn w') \<or>
         (\<exists>obj \<in> set (fetched E res). \<exists>r'. object_row L res obj = Inr r' \<and> key r' = key r))) \<and>
   (import_phase L E rs w = (None, w1) \<longrightarrow>
      (\<exists>tbl. db w1 = Some tbl \<and>
         (\<forall>r \<in> set tbl. \<exists>res \<in> set rs. \<exists>obj \<in> set (fetched E res). object_row L res obj = Inr r))) \<and>
   (export_phase L E rs w = (x, w2) \<longrightarrow> db w2 = db w \<and> conn w2 = conn w) \<and>
   chunk_writes L res tbl =
     delete_statement res # map (insert_statement L res) (select_resource L res tbl) \<and>
   (\<forall>s \<in> set (tl (chunk_writes L res tbl)). prefix ''INSERT OR REPLACE INTO objects '' s) \<and>
   (run L E rs w = (None, w3) \<and> res \<in> set rs \<longrightarrow>
      (\<exists>t. db w3 = Some t \<and> files w3 (chunk_path res) = Some (concat (chunk_writes L res t))))"
proof -
  have a: "init_db E w = (None, w0) \<longrightarrow> db w0 = Some [] \<and> conn w0 = []"
    by (auto simp: init_db_def split: if_splits)
  have b: "fetch_and_store L E res w = (None, w') \<longrightarrow>
      (\<forall>r \<in> set (conn w). r \<in> set (conn w') \<or>
         (\<exists>obj \<in> set (fetched E res). \<exists>r'. object_row L res obj = Inr r' \<and> key r' = key r))"
    using fetch_and_store_old_rows by blast
  have c: "import_phase L E rs w = (None, w1) \<longrightarrow>
      (\<exists>tbl. db w1 = Some tbl \<and>
         (\<forall>r \<in> set tbl. \<exists>res \<in> set rs. \<exists>obj \<in> set (fetched E res). object_row L res obj = Inr r))"
  proof
    assume "import_phase L E rs w = (None, w1)"
    then obtain v where v: "for_each (fetch_and_store L E) rs (w\<lparr>db := Some [], conn := []\<rparr>) = (None, v)"
      and w1: "w1 = v\<lparr>db := Some (conn v)\<rparr>"
      by (auto simp: import_phase_None)
    have "\<forall>r \<in> set (conn v). \<exists>res \<in> set rs. \<exists>obj \<in> set (fetched E res). object_row L res obj = Inr r"
      using for_each_new_rows [OF v] by auto
    with w1 show "\<exists>tbl. db w1 = Some tbl \<and>
         (\<forall>r \<in> set tbl. \<exists>res \<in> set rs. \<exists>obj \<in> set (fetched E res). object_row L res obj = Inr r)"
      by simp
  qed
  have d: "export_phase L E rs w = (x, w2) \<longrightarrow> db w2 = db w \<and> conn w2 = conn w"
    using export_phase_db by blast
  have e: "chunk_writes L res tbl =
     delete_statement res # map (insert_statement L res) (select_resource L res tbl)"
    by (rule chunk_writes_eq)
  have f: "\<forall>s \<in> set (tl (chunk_writes L res tbl)). prefix ''INSERT OR REPLACE INTO objects '' s"
    unfolding e using insert_statement_prefix by auto
  have g: "run L E rs w = (None, w3) \<and> res \<in> set rs \<longrightarrow>
      (\<exists>t. db w3 = Some t \<and> files w3 (chunk_path res) = Some (concat (chunk_writes L res t)))"
    using run_None_chunk by blast
  from a b c d e f g show ?thesis by blast
qed

theorem import_keeps_rows_of_the_run_witness:
  "fst (init_db sample_env kept_world) = None \<and>
   db (snd (init_db sample_env kept_world)) = Some [] \<and>
   fst (fetch_and_store sample_lib sample_env ''net'' kept_world) = None \<and>
   obrien_row \<in> set (conn kept_world) \<and>
   obrien_row \<in> set (conn (snd (fetch_and_store sample_lib sample_env ''net'' kept_world))) \<and>
   fst (import_phase sample_lib sample_env RESOURCES kept_world) = None \<and>
   (\<exists>tbl. db (snd (import_phase sample_lib sample_env RESOURCES kept_world)) = Some tbl \<and>
      obrien_row \<notin> set tbl) \<and>
   db (snd (export_phase sample_lib sample_env RESOURCES kept_world)) = db kept_world \<and>
   select_resource sample_lib ''net'' [stale_row, ix_row, obrien_row] = [obrien_row, stale_row] \<and>
   chunk_writes sample_lib ''net'' [stale_row, ix_row, obrien_row] =
     [delete_statement ''net'', insert_statement sample_lib ''net'' obrien_row,
      insert_statement sample_lib ''net'' stale_row] \<and>
   fst (run sample_lib sample_env RESOURCES stale_world) = None \<and>
   ''net'' \<in> set RESOURCES \<and>
   db (snd (run sample_lib sample_env RESOURCES stale_world)) = Some sample_rows \<and>
   files (snd (run sample_lib sample_env RESOURCES stale_world)) (chunk_path ''net'') =
     Some (concat (chunk_writes sample_lib ''net'' sample_rows))"
proof -
  let ?f = "fetch_and_store sample_lib sample_env ''net'' kept_world"
  let ?i = "import_phase sample_lib sample_env RESOURCES kept_world"
  let ?x = "export_phase sample_lib sample_env RESOURCES kept_world"
  let ?tbl = "[stale_row, ix_row, obrien_row]"
  note inst = import_keeps_rows_of_the_run [of sample_env kept_world "snd (init_db sample_env kept_world)"
      sample_lib "''net''" "snd ?f" RESOURCES "snd ?i" "fst ?x" "snd ?x" ?tbl stale_world]
  have i0: "init_db sample_env kept_world = (None, snd (init_db sample_env kept_world))"
    by (simp add: init_db_def sample_env_def)
  have f0: "fst ?f = None"
    by (simp add: kept_world_def sample_defs)
  then have f1: "?f = (None, snd ?f)" by (simp add: prod_eq_iff)
  have m: "obrien_row \<in> set (conn kept_world)"
    by (simp add: kept_world_def empty_world_def)
  have nokey: "\<not> (\<exists>obj \<in> set (fetched sample_env ''net''). \<exists>r'.
      object_row sample_lib ''net'' obj = Inr r' \<and> key r' = key obrien_row)"
    by (auto simp: fetched_def sample_env_def sample_objs_def object_row_def row_tuple_def
        stored_row_def sample_lib_def key_def obrien_row_def)
  from inst f1 m nokey have kept: "obrien_row \<in> set (conn (snd ?f))" by blast
  have i1: "fst ?i = None"
    by (simp add: kept_world_def sample_defs)
  then have i2: "?i = (None, snd ?i)" by (simp add: prod_eq_iff)
  from inst i2 obtain tbl where tbl: "db (snd ?i) = Some tbl"
    "\<forall>r \<in> set tbl. \<exists>res \<in> set RESOURCES. \<exists>obj \<in> set (fetched sample_env res).
        object_row sample_lib res obj = Inr r"
    by blast
  have notimp: "\<not> (\<exists>res \<in> set RESOURCES. \<exists>obj \<in> set (fetched sample_env res).
        object_row sample_lib res obj = Inr obrien_row)"
    by (auto simp: fetched_def sample_env_def sample_objs_def object_row_def row_tuple_def
        stored_row_def sample_lib_def obrien_row_def RESOURCES_def snapshot_url_def)
  with tbl have gone: "\<exists>tbl. db (snd ?i) = Some tbl \<and> obrien_row \<notin> set tbl" by blast
  have "?x = (fst ?x, snd ?x)" by simp
  with inst have ex: "db (snd ?x) = db kept_world" by blast
  from inst i0 have d0: "db (snd (init_db sample_env kept_world)) = Some []" by blast
  have i00: "fst (init_db sample_env kept_world) = None"
    by (simp add: init_db_def sample_env_def)
  have sel: "select_resource sample_lib ''net'' ?tbl = [obrien_row, stale_row]"
    by code_simp
  from inst have "chunk_writes sample_lib ''net'' ?tbl =
     delete_statement ''net'' # map (insert_statement sample_lib ''net'')
       (select_resource sample_lib ''net'' ?tbl)"
    by blast
  then have cw: "chunk_writes sample_lib ''net'' ?tbl =
     [delete_statement ''net'', insert_statement sample_lib ''net'' obrien_row,
      insert_statement sample_lib ''net'' stale_row]"
    by (simp only: sel list.map)
  have ok: "fst (run sample_lib sample_env RESOURCES stale_world) = None"
    using sample_main_exit by (simp add: main_def split: prod.splits option.splits)
  then have ok': "run sample_lib sample_env RESOURCES stale_world =
      (None, snd (run sample_lib sample_env RESOURCES stale_world))"
    by (simp add: prod_eq_iff)
  have net: "''net'' \<in> set RESOURCES"
    by (simp add: RESOURCES_def)
  have rdb: "db (snd (run sample_lib sample_env RESOURCES stale_world)) = Some sample_rows"
    using sample_main_db by (simp add: main_def split: prod.splits option.splits)
  note inst2 = import_keeps_rows_of_the_run [of sample_env stale_world stale_world
      sample_lib "''net''" stale_world RESOURCES stale_world None stale_world "[]"
      "snd (run sample_lib sample_env RESOURCES stale_world)"]
  note chunk = inst2 [THEN conjunct2, THEN conjunct2, THEN conjunct2, THEN conjunct2,
      THEN conjunct2, THEN conjunct2]
  from chunk ok' net rdb
  have fl: "files (snd (run sample_lib sample_env RESOURCES stale_world)) (chunk_path ''net'') =
     Some (concat (chunk_writes sample_lib ''net'' sample_rows))"
    by auto
  from i00 d0 f0 m kept i1 gone ex sel cw ok net rdb fl show ?thesis by blast
qed

subsection \<open>The filtered dump of a run\<close>

lemma run_None_dumps:
  assumes "run L E rs w = (None, w')"
  shows "\<exists>tbl. db w' = Some tbl \<and> files w' SQL_PATH = Some (dump_text L tbl) \<and>
     files w' D1_SQL_PATH =
       Some (concat (filter_dump (read_lines False [] (dump_text L tbl))))"
proof -
  from run_None_files [OF assms] obtain tbl where
    t: "db w' = Some tbl"
    and f: "files w' = (with_chunks L tbl rs
           ((files w)(SQL_PATH \<mapsto> dump_text L tbl, schema_path \<mapsto> schema_text)))
           (D1_SQL_PATH \<mapsto> concat (filter_dump (read_lines False [] (dump_text L tbl))))"
    by blast
  have "with_chunks L tbl rs
      ((files w)(SQL_PATH \<mapsto> dump_text L tbl, schema_path \<mapsto> schema_text)) SQL_PATH =
      ((files w)(SQL_PATH \<mapsto> dump_text L tbl, schema_path \<mapsto> schema_text)) SQL_PATH"
    by (rule with_chunks_other) (simp add: paths_differ)
  then have "files w' SQL_PATH = Some (dump_text L tbl)"
    unfolding f using paths_differ(3,5) by simp
  moreover have "files w' D1_SQL_PATH =
       Some (concat (filter_dump (read_lines False [] (dump_text L tbl))))"
    unfolding f by simp
  ultimately show ?thesis using t by blast
qed

text \<open>
  C5, as stated, fails for a full dump that holds a carriage return: the file is read in
  text mode, where \<open>\r\<close> ends a line and is read as \<open>\n\<close>. The content
  \<open>INSERT 1\rINSERT 2\n\<close> is one line of the file, not blank and with none of the three
  prefixes; the filtered dump written from it is \<open>INSERT 1\nINSERT 2\n\<close>, which does
  not hold that line unchanged.
\<close>

theorem carriage_return_rewritten:
  "files cr_world SQL_PATH = Some cr_dump \<and>
   cr_dump = ''INSERT 1'' @ [CHR 0x0D] @ ''INSERT 2'' @ [CHR 0x0A] \<and>
   lines_of cr_dump = [cr_dump] \<and>
   strip cr_dump \<noteq> [] \<and> \<not> startswith (strip cr_dump) skip_prefixes \<and>
   fst (write_filtered_dump sample_env cr_world) = None \<and>
   files (snd (write_filtered_dump sample_env cr_world)) D1_SQL_PATH =
     Some (''INSERT 1'' @ [CHR 0x0A] @ ''INSERT 2'' @ [CHR 0x0A]) \<and>
   cr_dump \<notin> set (lines_of (''INSERT 1'' @ [CHR 0x0A] @ ''INSERT 2'' @ [CHR 0x0A]))"
proof -
  have a: "files cr_world SQL_PATH = Some cr_dump"
    by (simp add: cr_world_def)
  have b: "lines_of cr_dump = [cr_dump]"
    by (simp add: cr_dump_def)
  have c: "strip cr_dump \<noteq> [] \<and> \<not> startswith (strip cr_dump) skip_prefixes"
    by (simp add: cr_dump_def strip_def isspace_def skip_prefixes_def)
  have w: "writable sample_env D1_SQL_PATH"
    by (simp add: sample_env_def)
  have l: "filter_dump (read_lines False [] cr_dump) =
      [''INSERT 1'' @ [CHR 0x0A], ''INSERT 2'' @ [CHR 0x0A]]"
    by (simp add: cr_dump_def filter_dump_def strip_def isspace_def skip_prefixes_def)
  have d: "write_filtered_dump sample_env cr_world =
      (None, cr_world\<lparr>files := (files cr_world)(D1_SQL_PATH \<mapsto>
         ''INSERT 1'' @ [CHR 0x0A] @ ''INSERT 2'' @ [CHR 0x0A])\<rparr>)"
    unfolding write_filtered_dump_eq [OF a w] l by simp
  have e: "fst (write_filtered_dump sample_env cr_world) = None"
    unfolding d by simp
  have f: "files (snd (write_filtered_dump sample_env cr_world)) D1_SQL_PATH =
     Some (''INSERT 1'' @ [CHR 0x0A] @ ''INSERT 2'' @ [CHR 0x0A])"
    unfolding d by simp
  have g: "cr_dump \<notin> set (lines_of (''INSERT 1'' @ [CHR 0x0A] @ ''INSERT 2'' @ [CHR 0x0A]))"
    by (simp add: cr_dump_def)
  from a b c e f g show ?thesis by (simp add: cr_dump_def)
qed

text \<open>
  C5, amended. The filtered dump is written from the lines read from the full dump in
  text mode, which are the lines of its content after \<open>\r\n\<close> and \<open>\r\<close> are read
  as \<open>\n\<close>; for a content without \<open>\r\<close> they are the lines of the file, and
  together they make the content. With the full dump in place and the path writable, the
  file written is the concatenation of the kept lines and its lines are the kept lines.
  Whatever lines are read, the lines kept are exactly the lines whose stripped form is
  not empty and starts with none of \<open>BEGIN TRANSACTION\<close>, \<open>COMMIT\<close>,
  \<open>PRAGMA\<close>: none of the kept lines is blank or starts with one of the three, they
  are the other lines unchanged and in the order read, and every line whose stripped
  form starts with \<open>INSERT\<close> or \<open>CREATE\<close> is kept. After a run that completes,
  the full dump is the dump of the committed table and the filtered dump is the file
  written from it in this way.
\<close>

theorem filtered_dump_lines:
  "(files w SQL_PATH = Some c \<and> writable E D1_SQL_PATH \<longrightarrow>
      write_filtered_dump E w =
        (None, w\<lparr>files := (files w)(D1_SQL_PATH \<mapsto>
           concat (filter_dump (read_lines False [] c)))\<rparr>)) \<and>
   read_lines False [] c = lines_of (universal_newlines c) \<and>
   (CHR 0x0D \<notin> set c \<longrightarrow>
      read_lines False [] c = lines_of c \<and> concat (read_lines False [] c) = c) \<and>
   read_lines False [] (concat (filter_dump (read_lines False [] c))) =
     filter_dump (read_lines False [] c) \<and>
   (\<forall>l \<in> set (filter_dump src).
       strip l \<noteq> [] \<and> \<not> prefix ''BEGIN TRANSACTION'' (strip l) \<and>
       \<not> prefix ''COMMIT'' (strip l) \<and> \<not> prefix ''PRAGMA'' (strip l)) \<and>
   filter_dump src =
     filter (\<lambda>l. strip l \<noteq> [] \<and> \<not> prefix ''BEGIN TRANSACTION'' (strip l) \<and>
       \<not> prefix ''COMMIT'' (strip l) \<and> \<not> prefix ''PRAGMA'' (strip l)) src \<and>
   subseq (filter_dump src) src \<and>
   (\<forall>l \<in> set src. prefix ''INSERT'' (strip l) \<or> prefix ''CREATE'' (strip l) \<longrightarrow>
       l \<in> set (filter_dump src)) \<and>
   (run L E rs w = (None, w') \<longrightarrow>
      (\<exists>tbl. db w' = Some tbl \<and> files w' SQL_PATH = Some (dump_text L tbl) \<and>
         files w' D1_SQL_PATH =
           Some (concat (filter_dump (read_lines False [] (dump_text L tbl))))))"
proof -
  have w: "files w SQL_PATH = Some c \<and> writable E D1_SQL_PATH \<longrightarrow>
      write_filtered_dump E w =
        (None, w\<lparr>files := (files w)(D1_SQL_PATH \<mapsto>
           concat (filter_dump (read_lines False [] c)))\<rparr>)"
    using write_filtered_dump_eq by blast
  have r1: "read_lines False [] c = lines_of (universal_newlines c)"
    by (rule read_lines_eq)
  have r2: "CHR 0x0D \<notin> set c \<longrightarrow>
      read_lines False [] c = lines_of c \<and> concat (read_lines False [] c) = c"
    by (simp add: read_lines_eq universal_newlines_free concat_lines_of)
  have r3: "read_lines False [] (concat (filter_dump (read_lines False [] c))) =
     filter_dump (read_lines False [] c)"
    by (rule read_lines_kept)
  have eq: "filter_dump src =
     filter (\<lambda>l. strip l \<noteq> [] \<and> \<not> startswith (strip l) skip_prefixes) src"
    by (simp add: filter_dump_def filter_lines_eq)
  have a: "\<forall>l \<in> set (filter_dump src).
       strip l \<noteq> [] \<and> \<not> prefix ''BEGIN TRANSACTION'' (strip l) \<and>
       \<not> prefix ''COMMIT'' (strip l) \<and> \<not> prefix ''PRAGMA'' (strip l)"
    unfolding eq by (simp add: startswith_skip)
  have b: "filter_dump src =
     filter (\<lambda>l. strip l \<noteq> [] \<and> \<not> prefix ''BEGIN TRANSACTION'' (strip l) \<and>
       \<not> prefix ''COMMIT'' (strip l) \<and> \<not> prefix ''PRAGMA'' (strip l)) src"
    unfolding eq by (simp add: startswith_skip)
  have c: "subseq (filter_dump src) src"
    unfolding eq by simp
  have d: "\<forall>l \<in> set src. prefix ''INSERT'' (strip l) \<or> prefix ''CREATE'' (strip l) \<longrightarrow>
       l \<in> set (filter_dump src)"
    unfolding eq using not_skip_insert_create by simp
  have e: "run L E rs w = (None, w') \<longrightarrow>
      (\<exists>tbl. db w' = Some tbl \<and> files w' SQL_PATH = Some (dump_text L tbl) \<and>
         files w' D1_SQL_PATH =
           Some (concat (filter_dump (read_lines False [] (dump_text L tbl)))))"
    using run_None_dumps by blast
  from w r1 r2 r3 a b c d e show ?thesis by blast
qed

theorem filtered_dump_lines_witness:
  "files dump_world SQL_PATH = Some (concat sample_dump) \<and>
   writable sample_env D1_SQL_PATH \<and>
   CHR 0x0D \<notin> set (concat sample_dump) \<and>
   read_lines False [] (concat sample_dump) = sample_dump \<and>
   filter_dump sample_dump =
     [''CREATE TABLE objects (\<newline>'', ''INSERT INTO objects VALUES(1);\<newline>''] \<and>
   fst (write_filtered_dump sample_env dump_world) = None \<and>
   files (snd (write_filtered_dump sample_env dump_world)) D1_SQL_PATH =
     Some (''CREATE TABLE objects (\<newline>'' @ ''INSERT INTO objects VALUES(1);\<newline>'') \<and>
   ''CREATE TABLE objects (\<newline>'' \<in> set sample_dump \<and>
   prefix ''CREATE'' (strip ''CREATE TABLE objects (\<newline>'') \<and>
   ''CREATE TABLE objects (\<newline>'' \<in> set (filter_dump sample_dump) \<and>
   fst (run sample_lib sample_env RESOURCES stale_world) = None \<and>
   files (snd (run sample_lib sample_env RESOURCES stale_world)) D1_SQL_PATH =
     Some (concat (filter_dump (read_lines False [] (dump_text sample_lib sample_rows))))"
proof -
  let ?c = "concat sample_dump"
  have h1: "files dump_world SQL_PATH = Some ?c"
    by (simp add: dump_world_def)
  have h2: "writable sample_env D1_SQL_PATH"
    by (simp add: sample_env_def)
  have h3: "CHR 0x0D \<notin> set ?c"
    by (simp add: sample_dump_def)
  have lines: "lines_of ?c = sample_dump"
    by (simp add: sample_dump_def)
  have kept: "filter_dump sample_dump =
     [''CREATE TABLE objects (\<newline>'', ''INSERT INTO objects VALUES(1);\<newline>'']"
    by (simp add: sample_dump_def filter_dump_def strip_def isspace_def skip_prefixes_def)
  have mem: "''CREATE TABLE objects (\<newline>'' \<in> set sample_dump"
    by (simp add: sample_dump_def)
  have pre: "prefix ''CREATE'' (strip ''CREATE TABLE objects (\<newline>'')"
    by (simp add: strip_def isspace_def)
  have ok: "fst (run sample_lib sample_env RESOURCES stale_world) = None"
    using sample_main_exit by (simp add: main_def split: prod.splits option.splits)
  then have ok': "run sample_lib sample_env RESOURCES stale_world =
      (None, snd (run sample_lib sample_env RESOURCES stale_world))"
    by (simp add: prod_eq_iff)
  have rdb: "db (snd (run sample_lib sample_env RESOURCES stale_world)) = Some sample_rows"
    using sample_main_db by (simp add: main_def split: prod.splits option.splits)
  note inst = filtered_dump_lines [of dump_world ?c sample_env sample_dump sample_lib RESOURCES
      dump_world]
  from inst h3 have "read_lines False [] ?c = lines_of ?c"
    by blast
  then have rl: "read_lines False [] ?c = sample_dump"
    by (simp only: lines)
  from inst h1 h2 have "write_filtered_dump sample_env dump_world =
        (None, dump_world\<lparr>files := (files dump_world)(D1_SQL_PATH \<mapsto>
           concat (filter_dump (read_lines False [] ?c)))\<rparr>)"
    by blast
  then have wf: "write_filtered_dump sample_env dump_world =
        (None, dump_world\<lparr>files := (files dump_world)(D1_SQL_PATH \<mapsto>
           ''CREATE TABLE objects (\<newline>'' @ ''INSERT INTO objects VALUES(1);\<newline>'')\<rparr>)"
    unfolding rl kept by simp
  have w1: "fst (write_filtered_dump sample_env dump_world) = None"
    unfolding wf by simp
  have w2: "files (snd (write_filtered_dump sample_env dump_world)) D1_SQL_PATH =
     Some (''CREATE TABLE objects (\<newline>'' @ ''INSERT INTO objects VALUES(1);\<newline>'')"
    unfolding wf by simp
  from inst mem pre have k: "''CREATE TABLE objects (\<newline>'' \<in> set (filter_dump sample_dump)"
    by blast
  note inst2 = filtered_dump_lines [of stale_world "[]" sample_env "[]" sample_lib RESOURCES
      "snd (run sample_lib sample_env RESOURCES stale_world)"]
  note last = inst2 [THEN conjunct2, THEN conjunct2, THEN conjunct2, THEN conjunct2,
      THEN conjunct2, THEN conjunct2, THEN conjunct2, THEN conjunct2]
  from last ok' rdb
  have fl: "files (snd (run sample_lib sample_env RESOURCES stale_world)) D1_SQL_PATH =
     Some (concat (filter_dump (read_lines False [] (dump_text sample_lib sample_rows))))"
    by auto
  from h1 h2 h3 rl kept w1 w2 mem pre k ok fl show ?thesis by blast
qed

section \<open>Replaying a chunk file\<close>

lemma expect_append: "expect p (p @ s) = Some s"
  by (simp add: expect_def)

lemma replace_quote_free:
  assumes "CHR 0x27 \<notin> set s"
  shows "replace_quote s = s"
  using assms by (induction s) auto

lemma read_literal_escaped:
  assumes "rest = [] \<or> hd rest \<noteq> CHR 0x27"
  shows "read_literal (replace_quote p @ CHR 0x27 # rest) = Some (p, rest)"
proof (induction p)
  case Nil
  from assms show ?case by (cases rest) auto
next
  case (Cons c cs)
  show ?case
  proof (cases "c = CHR 0x27")
    case True
    with Cons show ?thesis by simp
  next
    case False
    obtain d ds where t: "replace_quote cs @ CHR 0x27 # rest = d # ds"
      by (cases "replace_quote cs @ CHR 0x27 # rest") auto
    from False have "read_literal (replace_quote (c # cs) @ CHR 0x27 # rest) =
        (case read_literal (d # ds) of None \<Rightarrow> None | Some (s, r) \<Rightarrow> Some (c # s, r))"
      by (simp add: t)
    also have "\<dots> = Some (c # cs, rest)"
      using Cons t by simp
    finally show ?thesis .
  qed
qed

lemma read_literal_plain:
  assumes "CHR 0x27 \<notin> set s" and "rest = [] \<or> hd rest \<noteq> CHR 0x27"
  shows "read_literal (s @ CHR 0x27 # rest) = Some (s, rest)"
  using read_literal_escaped [OF assms(2), of s] replace_quote_free [OF assms(1)] by simp

lemma is_digit_digit_char:
  assumes "d < 10"
  shows "is_digit (digit_char d) \<and> (of_char (digit_char d) :: nat) - 48 = d \<and>
     digit_char d \<noteq> CHR ''-'' \<and> digit_char d \<noteq> CHR 0x27"
proof -
  have "(of_char (digit_char d) :: nat) = 48 + d"
    using assms by (simp add: digit_char_def)
  then show ?thesis
    using assms by (auto simp: is_digit_def)
qed

lemma read_digits_digits:
  "read_digits acc (digits n @ rest) = read_digits (acc * 10 ^ length (digits n) + n) rest"
proof (induction n arbitrary: acc rest rule: digits.induct)
  case (1 n)
  show ?case
  proof (cases "n < 10")
    case True
    then have d: "digits n = [digit_char n]" by (simp add: digits.simps)
    from True show ?thesis
      by (simp add: d is_digit_digit_char mult.commute)
  next
    case False
    then have d: "digits n = digits (n div 10) @ [digit_char (n mod 10)]"
      by (subst digits.simps) simp
    have m: "n mod 10 < 10" by simp
    have "read_digits acc (digits n @ rest) =
        read_digits acc (digits (n div 10) @ digit_char (n mod 10) # rest)"
      by (simp add: d)
    also have "\<dots> = read_digits (acc * 10 ^ length (digits (n div 10)) + n div 10)
        (digit_char (n mod 10) # rest)"
      by (rule "1.IH" [OF False])
    also have "\<dots> = read_digits (10 * (acc * 10 ^ length (digits (n div 10)) + n div 10) + n mod 10) rest"
      using is_digit_digit_char [OF m] by simp
    also have "10 * (acc * 10 ^ length (digits (n div 10)) + n div 10) + n mod 10 =
        acc * 10 ^ length (digits n) + n"
      by (simp add: d algebra_simps)
    finally show ?thesis .
  qed
qed

lemma read_digits_stop:
  assumes "rest = [] \<or> \<not> is_digit (hd rest)"
  shows "read_digits acc rest = (acc, rest)"
  using assms by (cases rest) auto

lemma digits_first:
  "\<exists>d ds. digits n = digit_char d # ds \<and> d < 10"
proof (induction n rule: digits.induct)
  case (1 n)
  show ?case
  proof (cases "n < 10")
    case True
    then show ?thesis by (auto simp: digits.simps)
  next
    case False
    with "1.IH" obtain d ds where "digits (n div 10) = digit_char d # ds" "d < 10" by blast
    with False show ?thesis by (subst digits.simps) auto
  qed
qed

lemma read_integer_str_int:
  assumes "rest = [] \<or> \<not> is_digit (hd rest)"
  shows "read_integer (str_int i @ rest) = Some (i, rest)"
proof (cases "i < 0")
  case True
  obtain d ds where d: "digits (nat (- i)) = digit_char d # ds" "d < 10"
    using digits_first by blast
  have r: "read_digits 0 (digits (nat (- i)) @ rest) = (nat (- i), rest)"
    by (simp add: read_digits_digits read_digits_stop [OF assms])
  have "read_integer (str_int i @ rest) =
      (case read_digits 0 (digits (nat (- i)) @ rest) of (n, r) \<Rightarrow> Some (- int n, r))"
    using True d is_digit_digit_char [OF d(2)]
    by (simp add: read_integer_def str_int_def)
  with r True show ?thesis by simp
next
  case False
  obtain d ds where d: "digits (nat i) = digit_char d # ds" "d < 10"
    using digits_first by blast
  have r: "read_digits 0 (digits (nat i) @ rest) = (nat i, rest)"
    by (simp add: read_digits_digits read_digits_stop [OF assms])
  have "read_integer (str_int i @ rest) =
      (case read_digits 0 (digits (nat i) @ rest) of (n, r) \<Rightarrow> Some (int n, r))"
    using False d is_digit_digit_char [OF d(2)]
    by (simp add: read_integer_def str_int_def)
  with r False show ?thesis by simp
qed

lemma read_text_literal:
  assumes "read_literal s1 = Some (x, rest)" and "\<not> prefix ''||'' rest"
  shows "read_text (CHR 0x27 # s1) = Some (x, rest)"
proof -
  from assms(1) obtain c cs where s1: "s1 = c # cs"
    by (cases s1) auto
  have t: "read_term (Suc (length cs)) (CHR 0x27 # s1) = Some (x, rest)"
    using assms(1) by (simp add: expect_def)
  have e: "expect ''||'' rest = None"
    using assms(2) by (simp add: expect_def)
  have "read_text (CHR 0x27 # s1) = read_expr (Suc (Suc (length cs))) (CHR 0x27 # s1)"
    by (simp add: read_text_def s1)
  also have "\<dots> = Some (x, rest)"
    by (simp only: read_expr.simps t e option.case prod.case)
  finally show ?thesis .
qed

lemma read_insert_statement:
  assumes "CHR 0x27 \<notin> set res" and "CHR 0x27 \<notin> set (updated r)"
    and "obj_id r = Integer i" and "resource r = res"
  shows "read_insert (insert_statement L res r @ rest) = Some (r, rest)"
proof -
  let ?head = "''INSERT OR REPLACE INTO objects (resource,obj_id,updated,payload) VALUES (''"
  let ?s8 = "'');\<newline>'' @ rest"
  let ?s7 = "replace_quote (payload r) @ CHR 0x27 # ?s8"
  let ?s6 = "'','' @ CHR 0x27 # ?s7"
  let ?s5 = "updated r @ CHR 0x27 # ?s6"
  let ?s4 = "'','' @ CHR 0x27 # ?s5"
  let ?s3 = "str_int i @ ?s4"
  let ?s2 = "'','' @ ?s3"
  let ?s1 = "res @ CHR 0x27 # ?s2"
  have t: "insert_statement L res r @ rest = ?head @ CHR 0x27 # ?s1"
    using assms(3) by (simp add: insert_statement_def Let_def)
  have 1: "expect ?head (insert_statement L res r @ rest) = Some (CHR 0x27 # ?s1)"
    unfolding t by (rule expect_append)
  have "read_literal ?s1 = Some (res, ?s2)"
    by (rule read_literal_plain [OF assms(1)]) simp
  then have 2: "read_text (CHR 0x27 # ?s1) = Some (res, ?s2)"
    by (rule read_text_literal) simp
  have 3: "expect '','' ?s2 = Some ?s3"
    by (rule expect_append)
  have 4: "read_integer ?s3 = Some (i, ?s4)"
    by (rule read_integer_str_int) (simp add: is_digit_def)
  have 5: "expect '','' ?s4 = Some (CHR 0x27 # ?s5)"
    by (simp add: expect_def)
  have "read_literal ?s5 = Some (updated r, ?s6)"
    by (rule read_literal_plain [OF assms(2)]) simp
  then have 6: "read_text (CHR 0x27 # ?s5) = Some (updated r, ?s6)"
    by (rule read_text_literal) simp
  have 7: "expect '','' ?s6 = Some (CHR 0x27 # ?s7)"
    by (simp add: expect_def)
  have "read_literal ?s7 = Some (payload r, ?s8)"
    by (rule read_literal_escaped) simp
  then have 8: "read_text (CHR 0x27 # ?s7) = Some (payload r, ?s8)"
    by (rule read_text_literal) simp
  have 9: "expect '');\<newline>'' ?s8 = Some rest"
    by (rule expect_append)
  have "read_insert (insert_statement L res r @ rest) =
      Some (\<lparr>resource = res, obj_id = Integer i, updated = updated r, payload = payload r\<rparr>, rest)"
    unfolding read_insert_def by (simp only: 1 2 3 4 5 6 7 8 9 option.case prod.case)
  moreover have "\<lparr>resource = res, obj_id = Integer i, updated = updated r, payload = payload r\<rparr> = r"
    using assms(3,4) by simp
  ultimately show ?thesis by simp
qed

lemma read_delete_statement:
  assumes "CHR 0x27 \<notin> set res"
  shows "read_delete (delete_statement res @ rest) = Some (res, rest)"
proof -
  let ?head = "''DELETE FROM objects WHERE resource = ''"
  let ?s2 = "'';\<newline>'' @ rest"
  let ?s1 = "res @ CHR 0x27 # ?s2"
  have t: "delete_statement res @ rest = ?head @ CHR 0x27 # ?s1"
    by (simp add: delete_statement_def)
  have 1: "expect ?head (delete_statement res @ rest) = Some (CHR 0x27 # ?s1)"
    unfolding t by (rule expect_append)
  have "read_literal ?s1 = Some (res, ?s2)"
    by (rule read_literal_plain [OF assms]) simp
  then have 2: "read_text (CHR 0x27 # ?s1) = Some (res, ?s2)"
    by (rule read_text_literal) simp
  have 3: "expect '';\<newline>'' ?s2 = Some rest"
    by (rule expect_append)
  show ?thesis
    unfolding read_delete_def by (simp only: 1 2 3 option.case prod.case)
qed

lemma read_delete_insert_statement: "read_delete (insert_statement L res r @ rest) = None"
  by (simp add: read_delete_def expect_def insert_statement_def Let_def)

lemma insert_statement_nonempty: "insert_statement L res r @ rest \<noteq> []"
  by (simp add: insert_statement_def Let_def)

lemma delete_statement_nonempty: "delete_statement res @ rest \<noteq> []"
  by (simp add: delete_statement_def)

lemma replay_inserts:
  assumes "CHR 0x27 \<notin> set res" and "\<forall>r \<in> set rs. plain_row res r"
  shows "replay (concat (map (insert_statement L res) rs)) tbl = Some (fold upsert rs tbl)"
  using assms(2)
proof (induction rs arbitrary: tbl)
  case Nil
  show ?case by (simp add: replay.simps)
next
  case (Cons r rs)
  let ?rest = "concat (map (insert_statement L res) rs)"
  from Cons.prems obtain i where r: "resource r = res" "obj_id r = Integer i"
    "CHR 0x27 \<notin> set (updated r)"
    by (auto simp: plain_row_def)
  have ri: "read_insert (insert_statement L res r @ ?rest) = Some (r, ?rest)"
    using assms(1) r(3,2,1) by (rule read_insert_statement)
  have "replay (insert_statement L res r @ ?rest) tbl = replay ?rest (upsert r tbl)"
    by (subst replay.simps)
       (simp only: insert_statement_nonempty read_delete_insert_statement ri
          if_False option.case prod.case)
  also have "\<dots> = Some (fold upsert rs (upsert r tbl))"
    using Cons.IH Cons.prems by simp
  finally show ?case by simp
qed

lemma fold_upsert_unique:
  assumes "unique_keys rs"
  shows "fold upsert rs [] = rs"
proof -
  have "last_rows rs = rs"
    using assms unfolding unique_keys_def by (induction rs) auto
  then show ?thesis by (simp add: fold_upsert)
qed

lemma unique_keys_select:
  assumes "unique_keys tbl" and "each_row_once L"
  shows "unique_keys (select_resource L res tbl)"
proof -
  have "mset (select_resource L res tbl) = mset (rows_of res tbl)"
    using assms(2) by (simp add: each_row_once_def select_resource_def)
  then have "mset (map key (select_resource L res tbl)) = mset (map key (rows_of res tbl))"
    by simp
  then have "distinct (map key (select_resource L res tbl)) =
      distinct (map key (rows_of res tbl))"
    by (rule mset_eq_imp_distinct_iff)
  then show ?thesis
    using assms(1) by (simp add: unique_keys_def rows_of_def distinct_map_filter)
qed

lemma replay_chunk:
  assumes "CHR 0x27 \<notin> set res" and "unique_keys tbl" and "each_row_once L"
    and "\<forall>r \<in> set (select_resource L res tbl). plain_row res r"
  shows "replay (concat (chunk_writes L res tbl)) [] = Some (select_resource L res tbl)"
proof -
  let ?rows = "select_resource L res tbl"
  let ?rest = "concat (map (insert_statement L res) ?rows)"
  have c: "concat (chunk_writes L res tbl) = delete_statement res @ ?rest"
    by (simp add: chunk_writes_def write_rows_eq)
  have "replay (delete_statement res @ ?rest) [] = replay ?rest []"
    by (subst replay.simps)
       (simp only: delete_statement_nonempty read_delete_statement [OF assms(1)]
          if_False option.case prod.case filter.simps)
  also have "\<dots> = Some (fold upsert ?rows [])"
    using assms(1,4) by (rule replay_inserts)
  also have "fold upsert ?rows [] = ?rows"
    using unique_keys_select [OF assms(2,3)] by (rule fold_upsert_unique)
  finally show ?thesis by (simp add: c)
qed












lemma quote_main_exit: "fst (main sample_lib quote_env empty_world) = 0"
  by (simp add: quote_env_def quote_objs_def run_defs sample_defs)

lemma quote_main_db: "db (snd (main sample_lib quote_env empty_world)) = Some [quote_row]"
  by (simp add: quote_env_def quote_objs_def quote_row_def run_defs sample_defs)

lemma quote_select: "select_resource sample_lib ''net'' [quote_row] = [quote_row]"
  by (simp add: select_resource_def rows_of_def sample_lib_def sample_scan_def quote_row_def)

lemma quote_main_file:
  "files (snd (main sample_lib quote_env empty_world)) ''d1_sql/net.sql'' =
     Some (concat (chunk_writes sample_lib ''net'' [quote_row]))"
proof -
  have "fst (run sample_lib quote_env RESOURCES empty_world) = None"
    using quote_main_exit by (simp add: main_def split: prod.splits option.splits)
  then have ok: "run sample_lib quote_env RESOURCES empty_world =
      (None, snd (run sample_lib quote_env RESOURCES empty_world))"
    by (simp add: prod_eq_iff)
  have m: "snd (main sample_lib quote_env empty_world) =
      snd (run sample_lib quote_env RESOURCES empty_world)"
    by (simp add: main_def split: prod.splits option.splits)
  have net: "''net'' \<in> set RESOURCES"
    by (simp add: RESOURCES_def)
  have p: "chunk_path ''net'' = ''d1_sql/net.sql''"
    by (simp add: chunk_path_def path_join_def D1_DIR_def)
  from run_None_chunk [OF ok net] quote_main_db show ?thesis
    by (auto simp: m p)
qed

lemma quote_replay: "replay (concat (chunk_writes sample_lib ''net'' [quote_row])) [] = None"
  by code_simp

lemma obrien_replay:
  "replay (concat (chunk_writes sample_lib ''net'' [obrien_row])) [] = Some [obrien_row]"
  by code_simp

text \<open>
  C3, at a failing input. The snapshot of \<open>net\<close> holds one object whose
  \<open>updated\<close> string contains a single quote. The run ends with status 0, the store
  holds the object's row, the chunk file \<open>d1_sql/net.sql\<close> is written from it, and
  replaying that file against an empty table is rejected: the rows of the store are not
  reproduced. For the row of \<open>O'Brien\<close>, whose quote is in the payload, the replay
  gives the row back.
\<close>

theorem chunk_round_trip_fails:
  "http quote_env (snapshot_url ''net'') =
     Json (JObj [(''data'', JArr [JObj [(''id'', JInt 3),
        (''updated'', JStr ''2024-01-01T00:00:00Z'x'')]])]) \<and>
   fst (main sample_lib quote_env empty_world) = 0 \<and>
   db (snd (main sample_lib quote_env empty_world)) = Some [quote_row] \<and>
   select_resource sample_lib ''net'' [quote_row] = [quote_row] \<and>
   files (snd (main sample_lib quote_env empty_world)) ''d1_sql/net.sql'' =
     Some (concat (chunk_writes sample_lib ''net'' [quote_row])) \<and>
   replay (concat (chunk_writes sample_lib ''net'' [quote_row])) [] = None \<and>
   replay (concat (chunk_writes sample_lib ''net'' [obrien_row])) [] = Some [obrien_row]"
proof -
  have a: "http quote_env (snapshot_url ''net'') =
     Json (JObj [(''data'', JArr [JObj [(''id'', JInt 3),
        (''updated'', JStr ''2024-01-01T00:00:00Z'x'')]])])"
    by (simp add: quote_env_def quote_objs_def)
  from a quote_main_exit quote_main_db quote_select quote_main_file quote_replay obrien_replay
  show ?thesis by blast
qed

end
